theory Spec2Isabelle
  imports Main "HOL-Library.Sublist"
begin

section \<open>Strings\<close>

text \<open>
  Keys and paths are Python \<open>str\<close> values, here \<open>string\<close>. The string methods that
  \<open>convert_lora\<close> calls are written out: \<open>sub in s\<close>, \<open>s.replace(old, new)\<close> (leftmost,
  non-overlapping occurrences; the source only calls it with a non-empty \<open>old\<close>),
  \<open>s.split('.')\<close>, \<open>s.rsplit(sep, 1)[0]\<close>, \<open>sep.join(parts)\<close>, \<open>s.endswith(suffix)\<close>
  and \<open>os.path.basename\<close> (POSIX separator).
\<close>

fun str_in :: "string \<Rightarrow> string \<Rightarrow> bool" where
  "str_in sub [] = (sub = [])"
| "str_in sub (c # cs) = (prefix sub (c # cs) \<or> str_in sub cs)"

fun str_replace :: "string \<Rightarrow> string \<Rightarrow> string \<Rightarrow> string" where
  "str_replace old new [] = []"
| "str_replace old new (c # cs) =
     (if old \<noteq> [] \<and> prefix old (c # cs)
      then new @ str_replace old new (drop (length old) (c # cs))
      else c # str_replace old new cs)"

fun str_split :: "char \<Rightarrow> string \<Rightarrow> string list" where
  "str_split sep [] = [[]]"
| "str_split sep (c # cs) =
     (if c = sep then [] # str_split sep cs
      else (case str_split sep cs of
              [] \<Rightarrow> [[c]]
            | p # ps \<Rightarrow> (c # p) # ps))"

fun str_rsplit1_head :: "string \<Rightarrow> string \<Rightarrow> string" where
  "str_rsplit1_head sep [] = []"
| "str_rsplit1_head sep (c # cs) =
     (if str_in sep cs then c # str_rsplit1_head sep cs
      else if prefix sep (c # cs) then []
      else c # cs)"

fun str_join :: "string \<Rightarrow> string list \<Rightarrow> string" where
  "str_join sep [] = []"
| "str_join sep [p] = p"
| "str_join sep (p # q # ps) = p @ sep @ str_join sep (q # ps)"

definition str_endswith :: "string \<Rightarrow> string \<Rightarrow> bool" where
  "str_endswith s suf = suffix suf s"

definition basename :: "string \<Rightarrow> string" where
  "basename p = rev (takeWhile (\<lambda>c. c \<noteq> CHR ''/'') (rev p))"

section \<open>Dictionaries\<close>

text \<open>
  A Python \<open>dict\<close> keeps its keys in insertion order and holds each key once: an
  association list whose keys are distinct. \<open>d[k] = v\<close> replaces the value in place when the
  key is present and appends the entry otherwise; \<open>d.get(k)\<close> and \<open>k in d\<close> are \<open>map_of\<close>.
\<close>

fun dict_set :: "string \<Rightarrow> 'v \<Rightarrow> (string \<times> 'v) list \<Rightarrow> (string \<times> 'v) list" where
  "dict_set k v [] = [(k, v)]"
| "dict_set k v (e # d) = (if fst e = k then (k, v) # d else e # dict_set k v d)"

section \<open>Tensors\<close>

text \<open>
  A tensor is its element format (dtype), its shape and its elements in row-major order.
  The elements are values of a type \<open>'a\<close> with a zero and a multiplication; what a format
  \<open>'d\<close> can hold is given by the conversions of torch, taken as parameters: \<open>cast d x\<close>
  is the value \<open>x\<close> as the format \<open>d\<close> stores it, \<open>promote\<close> is \<open>torch.promote_types\<close>
  on two different formats, and \<open>scalar_type d\<close> is the format of the product of a tensor
  of format \<open>d\<close> with a Python float. The torch operations below are the ones
  \<open>convert_lora\<close> calls, with the failures torch reports for them.
\<close>

datatype error = ValueError string | KeyError string | RuntimeError string

record ('a, 'd) tensor =
  dtype :: 'd
  shape :: "nat list"
  vals :: "'a list"

record ('a, 'd) formats =
  cast :: "'d \<Rightarrow> 'a \<Rightarrow> 'a"
  promote :: "'d \<Rightarrow> 'd \<Rightarrow> 'd"
  scalar_type :: "'d \<Rightarrow> 'd"

type_synonym ('a, 'd) tdict = "(string \<times> ('a, 'd) tensor) list"

definition convert_elem :: "('a, 'd) formats \<Rightarrow> 'd \<Rightarrow> 'd \<Rightarrow> 'a \<Rightarrow> 'a" where
  \<comment> \<open>an element of format \<open>src\<close> stored into a tensor of format \<open>dst\<close>: copied as it is
      when the formats are the same, converted otherwise\<close>
  "convert_elem fmt src dst x = (if src = dst then x else cast fmt dst x)"

definition to_dtype :: "('a, 'd) formats \<Rightarrow> 'd \<Rightarrow> ('a, 'd) tensor \<Rightarrow> ('a, 'd) tensor" where
  \<comment> \<open>\<open>t.to(d)\<close>\<close>
  "to_dtype fmt d t =
     \<lparr>dtype = d, shape = shape t, vals = map (convert_elem fmt (dtype t) d) (vals t)\<rparr>"

definition result_type :: "('a, 'd) formats \<Rightarrow> 'd \<Rightarrow> 'd list \<Rightarrow> 'd" where
  \<comment> \<open>the common format of tensors of the formats \<open>d # ds\<close>\<close>
  "result_type fmt d ds = fold (\<lambda>x acc. if x = acc then acc else promote fmt acc x) ds d"

definition elem2 :: "('a, 'd) tensor \<Rightarrow> nat \<Rightarrow> nat \<Rightarrow> 'a" where
  \<comment> \<open>\<open>t[i, j]\<close> of a 2-D tensor\<close>
  "elem2 t i j = vals t ! (i * (shape t ! 1) + j)"

definition zeros2 :: "'d \<Rightarrow> nat \<Rightarrow> nat \<Rightarrow> ('a::zero, 'd) tensor" where
  \<comment> \<open>\<open>torch.zeros(m, n, dtype=d)\<close>\<close>
  "zeros2 d m n = \<lparr>dtype = d, shape = [m, n], vals = replicate (m * n) 0\<rparr>"

definition unpack2 :: "nat list \<Rightarrow> error + nat \<times> nat" where
  \<comment> \<open>\<open>h, r = t.shape\<close>\<close>
  "unpack2 s = (case s of [h, r] \<Rightarrow> Inr (h, r) | _ \<Rightarrow> Inl (ValueError ''unpack''))"

definition expandable :: "nat list \<Rightarrow> nat \<Rightarrow> nat \<Rightarrow> bool" where
  \<comment> \<open>slice assignment broadcasts the value: leading dimensions of size 1 are dropped, and
      each remaining dimension, aligned from the right, is the target's or is 1\<close>
  "expandable s m n =
     (case dropWhile (\<lambda>d. d = 1) s of
        [] \<Rightarrow> True
      | [b] \<Rightarrow> b = n \<or> b = 1
      | [a, b] \<Rightarrow> (a = m \<or> a = 1) \<and> (b = n \<or> b = 1)
      | _ \<Rightarrow> False)"

definition expanded_elem :: "('a, 'd) tensor \<Rightarrow> nat \<Rightarrow> nat \<Rightarrow> 'a" where
  \<comment> \<open>the element at \<open>(i, j)\<close> of the value expanded to the target's shape\<close>
  "expanded_elem src i j =
     (case dropWhile (\<lambda>d. d = 1) (shape src) of
        [] \<Rightarrow> vals src ! 0
      | [b] \<Rightarrow> vals src ! (if b = 1 then 0 else j)
      | a # b # _ \<Rightarrow> vals src ! ((if a = 1 then 0 else i) * b + (if b = 1 then 0 else j)))"

definition setitem2 ::
  "('a, 'd) formats \<Rightarrow> ('a, 'd) tensor \<Rightarrow> nat \<Rightarrow> nat \<Rightarrow> nat \<Rightarrow> nat \<Rightarrow> ('a, 'd) tensor
   \<Rightarrow> error + ('a, 'd) tensor" where
  \<comment> \<open>\<open>dst[r0:r1, c0:c1] = src\<close> on a 2-D \<open>dst\<close>; slice ends are clamped to the dimension,
      and the elements stored are converted to the format of \<open>dst\<close>\<close>
  "setitem2 fmt dst r0 r1 c0 c1 src =
     (case shape dst of
        [m, n] \<Rightarrow>
          (let r1' = min r1 m; c1' = min c1 n in
           if expandable (shape src) (r1' - r0) (c1' - c0)
           then Inr \<lparr>dtype = dtype dst, shape = [m, n],
                     vals = map (\<lambda>idx.
                       (let i = idx div n; j = idx mod n in
                        if r0 \<le> i \<and> i < r1' \<and> c0 \<le> j \<and> j < c1'
                        then convert_elem fmt (dtype src) (dtype dst)
                               (expanded_elem src (i - r0) (j - c0))
                        else vals dst ! idx)) [0..<m * n]\<rparr>
           else Inl (RuntimeError ''setitem''))
      | _ \<Rightarrow> Inl (RuntimeError ''setitem''))"

definition cat0 :: "('a, 'd) formats \<Rightarrow> ('a, 'd) tensor list \<Rightarrow> error + ('a, 'd) tensor" where
  \<comment> \<open>\<open>torch.cat(ts, dim=0)\<close>: 1-D empty tensors are skipped; the others need one or more
      dimensions and equal sizes in every dimension but the first; the result has the
      common format of the tensors, and the elements are converted to it\<close>
  "cat0 fmt ts =
     (case ts of
        [] \<Rightarrow> Inl (RuntimeError ''cat'')
      | t0 # ts' \<Rightarrow>
          (let d = result_type fmt (dtype t0) (map dtype ts') in
           case filter (\<lambda>t. shape t \<noteq> [0]) ts of
             [] \<Rightarrow> Inr \<lparr>dtype = d, shape = [0], vals = []\<rparr>
           | t # us \<Rightarrow>
               (if shape t \<noteq> [] \<and> list_all (\<lambda>u. shape u \<noteq> [] \<and> tl (shape u) = tl (shape t)) us
                then Inr \<lparr>dtype = d,
                          shape = sum_list (map (\<lambda>u. hd (shape u)) (t # us)) # tl (shape t),
                          vals = concat (map (\<lambda>u. vals (to_dtype fmt d u)) (t # us))\<rparr>
                else Inl (RuntimeError ''cat''))))"

definition tensor_bool :: "('a::zero, 'd) tensor \<Rightarrow> error + bool" where
  \<comment> \<open>\<open>bool(t)\<close>: defined for a tensor of one element only\<close>
  "tensor_bool t = (case vals t of [x] \<Rightarrow> Inr (x \<noteq> 0) | _ \<Rightarrow> Inl (RuntimeError ''bool''))"

definition mul_scalar :: "('a::times, 'd) formats \<Rightarrow> ('a, 'd) tensor \<Rightarrow> 'a \<Rightarrow> ('a, 'd) tensor" where
  \<comment> \<open>\<open>t * c\<close> for a Python float \<open>c\<close>: the elements are taken to the format of the
      product, multiplied, and the product is stored in that format\<close>
  "mul_scalar fmt t c =
     (let d = scalar_type fmt (dtype t)
      in \<lparr>dtype = d, shape = shape t,
          vals = map (\<lambda>x. cast fmt d (convert_elem fmt (dtype t) d x * c)) (vals t)\<rparr>)"

section \<open>The conversion\<close>

text \<open>
  \<open>layer_groups\<close> is a \<open>defaultdict\<close> of \<open>defaultdict\<close>s of \<open>dict\<close>s: group key, then
  \<open>q\<close>/\<open>k\<close>/\<open>v\<close>, then \<open>lora_A\<close>/\<open>lora_B\<close>. The outer dictionary is iterated, so it keeps
  its order; the inner two are only read by key.
\<close>

type_synonym ('a, 'd) qkv = "string \<rightharpoonup> (string \<rightharpoonup> ('a, 'd) tensor)"

type_synonym ('a, 'd) groups = "(string \<times> ('a, 'd) qkv) list"

definition groups_set ::
  "string \<Rightarrow> string \<Rightarrow> string \<Rightarrow> ('a, 'd) tensor \<Rightarrow> ('a, 'd) groups \<Rightarrow> ('a, 'd) groups" where
  \<comment> \<open>\<open>layer_groups[base_key][attn_type][lora_type] = value\<close>\<close>
  "groups_set base_key attn_type lora_type value layer_groups =
     (let qkv_dict = (case map_of layer_groups base_key of None \<Rightarrow> Map.empty | Some q \<Rightarrow> q);
          slots = (case qkv_dict attn_type of None \<Rightarrow> Map.empty | Some m \<Rightarrow> m)
      in dict_set base_key (qkv_dict(attn_type \<mapsto> slots(lora_type \<mapsto> value))) layer_groups)"

definition truthy :: "string option \<Rightarrow> bool" where
  \<comment> \<open>the truth value of a \<open>str\<close> or \<open>None\<close>\<close>
  "truthy x = (case x of None \<Rightarrow> False | Some s \<Rightarrow> s \<noteq> [])"

definition classify_step ::
  "('a, 'd) tdict \<Rightarrow> string \<times> ('a, 'd) tensor \<Rightarrow> ('a, 'd) tdict \<times> ('a, 'd) groups
   \<Rightarrow> ('a, 'd) tdict \<times> ('a, 'd) groups" where
  \<comment> \<open>the body of the first loop, after the progress report, for one \<open>key, value\<close>\<close>
  "classify_step lora_dict kv st =
     (case kv of (key, value) \<Rightarrow>
      case st of (output_dict, layer_groups) \<Rightarrow>
        if str_in ''.attention.to_out.0.'' key then
          (let new_key = str_replace ''.to_out.0.'' ''.out.'' key;
               output_dict = dict_set new_key value output_dict
           in if str_in ''lora_A'' key then
                (let base = str_rsplit1_head ''.lora_A'' key;
                     alpha_key = base @ ''.alpha''
                 in case map_of lora_dict alpha_key of
                      Some alpha \<Rightarrow>
                        (dict_set (str_replace ''.to_out.0.'' ''.out.'' alpha_key) alpha output_dict,
                         layer_groups)
                    | None \<Rightarrow> (output_dict, layer_groups))
              else (output_dict, layer_groups))
        else if str_in ''.attention.to_'' key \<and> str_in ''.alpha'' key then
          (output_dict, layer_groups)
        else if str_in ''.attention.to_'' key
                \<and> list_ex (\<lambda>x. str_in x key) [''.to_q.'', ''.to_k.'', ''.to_v.''] then
          (let parts = str_split CHR ''.'' key;
               attn_type = map_option (drop 3)
                             (find (\<lambda>p. p \<in> set [''to_q'', ''to_k'', ''to_v'']) parts);
               lora_type = find (\<lambda>p. p \<in> set [''lora_A'', ''lora_B'']) parts
           in if truthy attn_type \<and> truthy lora_type then
                (let base_parts = filter (\<lambda>p. p \<notin> set [''to_q'', ''to_k'', ''to_v'']) parts;
                     base_key = str_join ''.'' (take (length base_parts - 2) base_parts)
                 in (output_dict,
                     groups_set base_key (the attn_type) (the lora_type) value layer_groups))
              else (dict_set key value output_dict, layer_groups))
        else (dict_set key value output_dict, layer_groups))"

text \<open>
  The progress callback is called with a percentage and a label and its result is not
  used. It changes a state \<open>'s\<close> of its own, and it may raise: a call returns the error
  raised, if any, and the new state. No call of the callback is inside a \<open>try\<close>, so an error
  it raises ends \<open>convert_lora\<close>.
\<close>

type_synonym 's callback = "int \<Rightarrow> string \<Rightarrow> 's \<Rightarrow> error option \<times> 's"

definition report :: "'s callback option \<Rightarrow> bool \<Rightarrow> int \<Rightarrow> string \<Rightarrow> 's \<Rightarrow> error option \<times> 's" where
  \<comment> \<open>\<open>if progress_callback and cond: progress_callback(percent, label)\<close>\<close>
  "report progress_callback cond percent label ob =
     (case progress_callback of
        Some cb \<Rightarrow> if cond then cb percent label ob else (None, ob)
      | None \<Rightarrow> (None, ob))"

fun parse_loop ::
  "'s callback option \<Rightarrow> ('a, 'd) tdict \<Rightarrow> (string \<times> ('a, 'd) tensor) list
   \<Rightarrow> nat \<times> 's \<times> ('a, 'd) tdict \<times> ('a, 'd) groups
   \<Rightarrow> error option \<times> nat \<times> 's \<times> ('a, 'd) tdict \<times> ('a, 'd) groups" where
  \<comment> \<open>the first loop over the items that remain; it stops at the first error\<close>
  "parse_loop progress_callback lora_dict [] st = (None, st)"
| "parse_loop progress_callback lora_dict (kv # items) (processed, ob, cst) =
     (let total_keys = length lora_dict;
          processed = processed + 1
      in case report progress_callback (processed mod 100 = 0)
                (10 + (40 * int processed) div int total_keys) ''Parsing keys...'' ob of
           (Some e, ob) \<Rightarrow> (Some e, processed, ob, cst)
         | (None, ob) \<Rightarrow>
             parse_loop progress_callback lora_dict items
               (processed, ob, classify_step lora_dict kv cst))"

definition lookup_slot :: "('a, 'd) qkv \<Rightarrow> string \<Rightarrow> string \<Rightarrow> error + ('a, 'd) tensor" where
  \<comment> \<open>\<open>qkv_dict[a][l]\<close>\<close>
  "lookup_slot qkv_dict a l =
     (case qkv_dict a of
        None \<Rightarrow> Inl (KeyError a)
      | Some m \<Rightarrow> (case m l of None \<Rightarrow> Inl (KeyError l) | Some t \<Rightarrow> Inr t))"

definition bind_err :: "error + 'b \<Rightarrow> ('b \<Rightarrow> error + 'c) \<Rightarrow> error + 'c" where
  "bind_err x f = (case x of Inl e \<Rightarrow> Inl e | Inr y \<Rightarrow> f y)"

definition build_qkv ::
  "('a::zero, 'd) formats \<Rightarrow> ('a, 'd) qkv \<Rightarrow> error + ('a, 'd) tensor \<times> ('a, 'd) tensor" where
  \<comment> \<open>the \<open>try\<close> body up to \<open>torch.cat\<close>: it reads the six slots and builds the two fused
      tensors, and changes nothing outside\<close>
  "build_qkv fmt qkv_dict =
     bind_err (lookup_slot qkv_dict ''q'' ''lora_B'') (\<lambda>qB.
     bind_err (lookup_slot qkv_dict ''k'' ''lora_B'') (\<lambda>kB.
     bind_err (lookup_slot qkv_dict ''v'' ''lora_B'') (\<lambda>vB.
     bind_err (lookup_slot qkv_dict ''q'' ''lora_A'') (\<lambda>qA.
     bind_err (lookup_slot qkv_dict ''k'' ''lora_A'') (\<lambda>kA.
     bind_err (lookup_slot qkv_dict ''v'' ''lora_A'') (\<lambda>vA.
     bind_err (unpack2 (shape qB)) (\<lambda>(h, r).
     bind_err (setitem2 fmt (zeros2 (dtype qB) (3 * h) (3 * r)) 0 h 0 r qB) (\<lambda>qkv_B.
     bind_err (setitem2 fmt qkv_B h (2 * h) r (2 * r) kB) (\<lambda>qkv_B.
     bind_err (setitem2 fmt qkv_B (2 * h) (3 * h) (2 * r) (3 * r) vB) (\<lambda>qkv_B.
     bind_err (cat0 fmt [qA, kA, vA]) (\<lambda>qkv_A.
     Inr (qkv_B, qkv_A))))))))))))"

definition alpha_lookup :: "('a::zero, 'd) tdict \<Rightarrow> string \<Rightarrow> error + ('a, 'd) tensor option" where
  \<comment> \<open>\<open>lora_dict.get(base_key + '.to_q.alpha') or lora_dict.get(base_key + '.to_q.lora_A.alpha')\<close>:
      \<open>or\<close> takes the truth value of its left operand\<close>
  "alpha_lookup lora_dict base_key =
     (case map_of lora_dict (base_key @ ''.to_q.alpha'') of
        None \<Rightarrow> Inr (map_of lora_dict (base_key @ ''.to_q.lora_A.alpha''))
      | Some a \<Rightarrow>
          bind_err (tensor_bool a) (\<lambda>b.
            if b then Inr (Some a)
            else Inr (map_of lora_dict (base_key @ ''.to_q.lora_A.alpha''))))"

definition merge_step ::
  "('a::{zero,times,numeral}, 'd) formats \<Rightarrow> ('a, 'd) tdict \<Rightarrow> string \<times> ('a, 'd) qkv
   \<Rightarrow> ('a, 'd) tdict \<times> nat \<Rightarrow> ('a, 'd) tdict \<times> nat" where
  \<comment> \<open>one iteration of the second loop; an exception in the \<open>try\<close> body ends the iteration
      and keeps what the body had already stored\<close>
  "merge_step fmt lora_dict g st =
     (case g of (base_key, qkv_dict) \<Rightarrow>
      case st of (output_dict, converted_count) \<Rightarrow>
        if list_all (\<lambda>x. qkv_dict x \<noteq> None) [''q'', ''k'', ''v''] then
          (case build_qkv fmt qkv_dict of
             Inl e \<Rightarrow> (output_dict, converted_count)
           | Inr (qkv_B, qkv_A) \<Rightarrow>
               (let output_dict = dict_set (base_key @ ''.qkv.lora_B.weight'') qkv_B output_dict;
                    output_dict = dict_set (base_key @ ''.qkv.lora_A.weight'') qkv_A output_dict;
                    converted_count = converted_count + 1
                in case alpha_lookup lora_dict base_key of
                     Inl e \<Rightarrow> (output_dict, converted_count)
                   | Inr None \<Rightarrow> (output_dict, converted_count)
                   | Inr (Some alpha_q) \<Rightarrow>
                       (dict_set (base_key @ ''.qkv.alpha'') (mul_scalar fmt alpha_q 3) output_dict,
                        converted_count)))
        else (output_dict, converted_count))"

definition convert_tensors ::
  "('a::{zero,times,numeral}, 'd) formats \<Rightarrow> 's callback option \<Rightarrow> ('a, 'd) tdict \<Rightarrow> 's
   \<Rightarrow> (error + ('a, 'd) tdict \<times> nat) \<times> 's" where
  \<comment> \<open>\<open>convert_lora\<close> between loading and saving: both loops, on the loaded dictionary\<close>
  "convert_tensors fmt progress_callback lora_dict ob =
     (case parse_loop progress_callback lora_dict lora_dict (0, ob, [], []) of
        (Some e, processed, ob, cst) \<Rightarrow> (Inl e, ob)
      | (None, processed, ob, output_dict, layer_groups) \<Rightarrow>
          (case fold (merge_step fmt lora_dict) layer_groups (output_dict, 0) of
             (output_dict, converted_count) \<Rightarrow> (Inr (output_dict, converted_count), ob)))"

text \<open>
  Reading and writing container files are the primitives of the libraries: \<open>load_file\<close>
  and \<open>torch_load\<close> return the dictionary of a path or fail, \<open>save_file\<close> changes the
  file system \<open>'w\<close> and may fail.
\<close>

record ('a, 'd, 'w) io =
  load_file :: "string \<Rightarrow> 'w \<Rightarrow> error + ('a, 'd) tdict"
  torch_load :: "string \<Rightarrow> 'w \<Rightarrow> error + ('a, 'd) tdict"
  save_file :: "('a, 'd) tdict \<Rightarrow> string \<Rightarrow> (string \<times> string) list \<Rightarrow> 'w \<Rightarrow> error option \<times> 'w"

definition metadata :: "(string \<times> string) list" where
  "metadata = [(''converted_for'', ''z-image-turbo / Lumina2''), (''script'', ''batch_converter.py'')]"

definition convert_lora ::
  "('a::{zero,times,numeral}, 'd) formats \<Rightarrow> ('a, 'd, 'w) io \<Rightarrow> string \<Rightarrow> string
   \<Rightarrow> 's callback option \<Rightarrow> 's \<times> 'w \<Rightarrow> (error + nat) \<times> 's \<times> 'w" where
  "convert_lora fmt env input_path output_path progress_callback world =
     (case world of (ob, w) \<Rightarrow>
      case report progress_callback True 0 (''Loading: '' @ basename input_path) ob of
        (Some e, ob) \<Rightarrow> (Inl e, ob, w)
      | (None, ob) \<Rightarrow>
          (let loaded =
                 (if str_endswith input_path ''.safetensors'' then load_file env input_path w
                  else if str_endswith input_path ''.pt'' \<or> str_endswith input_path ''.pth''
                  then torch_load env input_path w
                  else Inl (ValueError ''Unsupported file format''))
           in case loaded of
                Inl e \<Rightarrow> (Inl e, ob, w)
              | Inr lora_dict \<Rightarrow>
                  (case convert_tensors fmt progress_callback lora_dict ob of
                     (Inl e, ob) \<Rightarrow> (Inl e, ob, w)
                   | (Inr (output_dict, converted_count), ob) \<Rightarrow>
                       (case save_file env output_dict output_path metadata w of
                          (Some e, w) \<Rightarrow> (Inl e, ob, w)
                        | (None, w) \<Rightarrow> (Inr converted_count, ob, w)))))"

section \<open>Notions used in the statements\<close>

text \<open>
  The definitions of this section are not functions of the source: they name what the loops
  compute, so that the statements can speak of it. \<open>parsed\<close> is the state after the first
  loop and \<open>merged\<close> the state after the second, both without the progress reports;
  \<open>merge_slot\<close> is the slot (group key, axis, factor) into which the first loop stores the
  tensor of a key, if it does; \<open>targets\<close> lists the output keys that the first loop writes
  when it meets a key; \<open>last_slot\<close> is the tensor a slot holds when the first loop ends, that
  of the last key stored into it.
\<close>

definition parsed :: "('a, 'd) tdict \<Rightarrow> ('a, 'd) tdict \<times> ('a, 'd) groups" where
  "parsed d = fold (classify_step d) d ([], [])"

definition merged ::
  "('a::{zero,times,numeral}, 'd) formats \<Rightarrow> ('a, 'd) tdict \<Rightarrow> ('a, 'd) tdict \<times> nat" where
  "merged fmt d = fold (merge_step fmt d) (snd (parsed d)) (fst (parsed d), 0)"

text \<open>
  A callback returns normally when no call of it raises; so does the absent callback.
\<close>

definition returns_normally :: "'s callback option \<Rightarrow> bool" where
  "returns_normally progress_callback =
     (case progress_callback of
        None \<Rightarrow> True
      | Some cb \<Rightarrow> \<forall>p l ob. fst (cb p l ob) = None)"

text \<open>
  The tests of the first loop, in the order the source makes them, and what it derives from a
  key that it stores into a group.
\<close>

definition rename_out :: "string \<Rightarrow> string" where
  "rename_out key = str_replace ''.to_out.0.'' ''.out.'' key"

definition is_out_key :: "string \<Rightarrow> bool" where
  "is_out_key key = str_in ''.attention.to_out.0.'' key"

definition is_alpha_skip :: "string \<Rightarrow> bool" where
  "is_alpha_skip key = (str_in ''.attention.to_'' key \<and> str_in ''.alpha'' key)"

definition qkv_pattern :: "string \<Rightarrow> bool" where
  "qkv_pattern key =
     (str_in ''.attention.to_'' key \<and> list_ex (\<lambda>x. str_in x key) [''.to_q.'', ''.to_k.'', ''.to_v.''])"

definition axis_segment :: "string \<Rightarrow> string option" where
  "axis_segment key =
     map_option (drop 3) (find (\<lambda>p. p \<in> set [''to_q'', ''to_k'', ''to_v'']) (str_split CHR ''.'' key))"

definition factor_segment :: "string \<Rightarrow> string option" where
  "factor_segment key = find (\<lambda>p. p \<in> set [''lora_A'', ''lora_B'']) (str_split CHR ''.'' key)"

definition group_key :: "string \<Rightarrow> string" where
  "group_key key =
     (let base_parts = filter (\<lambda>p. p \<notin> set [''to_q'', ''to_k'', ''to_v'']) (str_split CHR ''.'' key)
      in str_join ''.'' (take (length base_parts - 2) base_parts))"

definition merge_slot :: "string \<Rightarrow> (string \<times> string \<times> string) option" where
  "merge_slot key =
     (if \<not> is_out_key key \<and> \<not> is_alpha_skip key \<and> qkv_pattern key
         \<and> truthy (axis_segment key) \<and> truthy (factor_segment key)
      then Some (group_key key, the (axis_segment key), the (factor_segment key))
      else None)"

text \<open>
  The output keys that the first loop writes when it meets a key: the renamed key and, when the
  input has it, the renamed alpha of the same base for an out-projection key; nothing for a
  skipped alpha or a key stored into a group; the key itself otherwise. \<open>step_writes\<close> gives
  the same writes with the tensors written, and \<open>loop_writes\<close> all the writes of the first
  loop, in order.
\<close>

definition companion_alpha :: "('a, 'd) tdict \<Rightarrow> string \<Rightarrow> string list" where
  "companion_alpha d key =
     (if str_in ''lora_A'' key
      then (case map_of d (str_rsplit1_head ''.lora_A'' key @ ''.alpha'') of
              Some alpha \<Rightarrow> [rename_out (str_rsplit1_head ''.lora_A'' key @ ''.alpha'')]
            | None \<Rightarrow> [])
      else [])"

definition targets :: "('a, 'd) tdict \<Rightarrow> string \<Rightarrow> string list" where
  "targets d key =
     (if is_out_key key then rename_out key # companion_alpha d key
      else if is_alpha_skip key \<or> merge_slot key \<noteq> None then []
      else [key])"

definition step_writes :: "('a, 'd) tdict \<Rightarrow> string \<times> ('a, 'd) tensor \<Rightarrow> ('a, 'd) tdict" where
  "step_writes d kv =
     (if is_out_key (fst kv) then
        (rename_out (fst kv), snd kv) #
        (if str_in ''lora_A'' (fst kv)
         then (case map_of d (str_rsplit1_head ''.lora_A'' (fst kv) @ ''.alpha'') of
                 Some alpha \<Rightarrow> [(rename_out (str_rsplit1_head ''.lora_A'' (fst kv) @ ''.alpha''), alpha)]
               | None \<Rightarrow> [])
         else [])
      else if is_alpha_skip (fst kv) \<or> merge_slot (fst kv) \<noteq> None then []
      else [kv])"

definition loop_writes :: "('a, 'd) tdict \<Rightarrow> ('a, 'd) tdict" where
  "loop_writes d = concat (map (step_writes d) d)"

text \<open>
  Slots: \<open>get_slot\<close> reads a slot of \<open>layer_groups\<close>; \<open>last_slot\<close> is the tensor of the last
  key of the input that the first loop stores into the slot; \<open>group_keys\<close> lists the group
  keys of the input and \<open>fused_names\<close> the three keys that the second loop may write for one.
\<close>

definition get_slot ::
  "('a, 'd) groups \<Rightarrow> string \<Rightarrow> string \<Rightarrow> string \<Rightarrow> ('a, 'd) tensor option" where
  "get_slot layer_groups b a l =
     (case map_of layer_groups b of
        None \<Rightarrow> None
      | Some q \<Rightarrow> (case q a of None \<Rightarrow> None | Some m \<Rightarrow> m l))"

fun last_slot :: "('a, 'd) tdict \<Rightarrow> string \<times> string \<times> string \<Rightarrow> ('a, 'd) tensor option" where
  "last_slot [] s = None"
| "last_slot (kv # d) s =
     (case last_slot d s of
        Some t \<Rightarrow> Some t
      | None \<Rightarrow> if merge_slot (fst kv) = Some s then Some (snd kv) else None)"

definition fused_names :: "string \<Rightarrow> string list" where
  "fused_names b = [b @ ''.qkv.lora_B.weight'', b @ ''.qkv.lora_A.weight'', b @ ''.qkv.alpha'']"

definition group_keys :: "('a, 'd) tdict \<Rightarrow> string list" where
  "group_keys d = List.map_filter (\<lambda>kv. map_option fst (merge_slot (fst kv))) d"


text \<open>
  \<open>block2 t h r bi bj\<close> is the slice \<open>t[bi*h:(bi+1)*h, bj*r:(bj+1)*r]\<close> of a 2-D tensor, a
  tensor of shape \<open>(h, r)\<close> and of the format of \<open>t\<close>; a tensor is \<open>well_shaped\<close> for a shape
  when it has this shape and as many elements as the shape says.
\<close>

definition block2 :: "('a, 'd) tensor \<Rightarrow> nat \<Rightarrow> nat \<Rightarrow> nat \<Rightarrow> nat \<Rightarrow> ('a, 'd) tensor" where
  "block2 t h r bi bj =
     \<lparr>dtype = dtype t, shape = [h, r],
      vals = map (\<lambda>idx. elem2 t (bi * h + idx div r) (bj * r + idx mod r)) [0..<h * r]\<rparr>"

definition stacked ::
  "('a, 'd) formats \<Rightarrow> ('a, 'd) tensor \<Rightarrow> ('a, 'd) tensor \<Rightarrow> ('a, 'd) tensor \<Rightarrow> nat \<Rightarrow> nat
   \<Rightarrow> ('a, 'd) tensor" where
  \<comment> \<open>the rows of three tensors of shape \<open>(r, n)\<close>, one tensor after the other, in the common
      format of the three\<close>
  "stacked fmt qA kA vA r n =
     (let d = result_type fmt (dtype qA) [dtype kA, dtype vA]
      in \<lparr>dtype = d, shape = [3 * r, n],
          vals = vals (to_dtype fmt d qA) @ vals (to_dtype fmt d kA) @ vals (to_dtype fmt d vA)\<rparr>)"

definition well_shaped :: "('a, 'd) tensor \<Rightarrow> nat list \<Rightarrow> bool" where
  "well_shaped t s = (shape t = s \<and> length (vals t) = prod_list s)"

text \<open>
  Shape compatibility as the specification has it: the three factors B are 2-D of one shape
  \<open>(h, r)\<close>, and the three factors A are 2-D of one shape \<open>(r, n)\<close>, with the same \<open>r\<close>.
\<close>

definition shape_compatible ::
  "nat list \<Rightarrow> nat list \<Rightarrow> nat list \<Rightarrow> nat list \<Rightarrow> nat list \<Rightarrow> nat list \<Rightarrow> bool" where
  "shape_compatible sqB skB svB sqA skA svA =
     (case sqB of
        [h, r] \<Rightarrow>
          skB = [h, r] \<and> svB = [h, r] \<and>
          (case sqA of [r', n] \<Rightarrow> r' = r \<and> skA = [r, n] \<and> svA = [r, n] | _ \<Rightarrow> False)
      | _ \<Rightarrow> False)"

text \<open>
  The shapes that the code accepts, on shapes alone: what \<open>h, r = qB.shape\<close>, the three slice
  assignments and \<open>torch.cat\<close> let through. The code makes no other test of the shapes.
\<close>

definition cat_accepted :: "nat list list \<Rightarrow> bool" where
  "cat_accepted ss =
     (case filter (\<lambda>s. s \<noteq> [0]) ss of
        [] \<Rightarrow> ss \<noteq> []
      | s # us \<Rightarrow> s \<noteq> [] \<and> list_all (\<lambda>u. u \<noteq> [] \<and> tl u = tl s) us)"

definition shapes_accepted ::
  "nat list \<Rightarrow> nat list \<Rightarrow> nat list \<Rightarrow> nat list \<Rightarrow> nat list \<Rightarrow> nat list \<Rightarrow> bool" where
  "shapes_accepted sqB skB svB sqA skA svA =
     (case sqB of
        [h, r] \<Rightarrow> expandable skB h r \<and> expandable svB h r \<and> cat_accepted [sqA, skA, svA]
      | _ \<Rightarrow> False)"

text \<open>
  A group key is \<open>complete\<close> when its six slots are filled when the first loop ends;
  \<open>on_shapes P d b\<close> applies a predicate to the shapes of the six tensors. A complete group
  key is \<open>compatible\<close> when the shapes are compatible as the specification has it, and
  \<open>fusable\<close> when the code accepts them.
\<close>

definition slots :: "(string \<times> string) list" where
  "slots = [(''q'', ''lora_B''), (''k'', ''lora_B''), (''v'', ''lora_B''),
            (''q'', ''lora_A''), (''k'', ''lora_A''), (''v'', ''lora_A'')]"

definition complete :: "('a, 'd) tdict \<Rightarrow> string \<Rightarrow> bool" where
  "complete d b = list_all (\<lambda>s. last_slot d (b, s) \<noteq> None) slots"

definition on_shapes ::
  "(nat list \<Rightarrow> nat list \<Rightarrow> nat list \<Rightarrow> nat list \<Rightarrow> nat list \<Rightarrow> nat list \<Rightarrow> bool)
   \<Rightarrow> ('a, 'd) tdict \<Rightarrow> string \<Rightarrow> bool" where
  "on_shapes P d b =
     P (shape (the (last_slot d (b, ''q'', ''lora_B''))))
       (shape (the (last_slot d (b, ''k'', ''lora_B''))))
       (shape (the (last_slot d (b, ''v'', ''lora_B''))))
       (shape (the (last_slot d (b, ''q'', ''lora_A''))))
       (shape (the (last_slot d (b, ''k'', ''lora_A''))))
       (shape (the (last_slot d (b, ''v'', ''lora_A''))))"

definition compatible :: "('a, 'd) tdict \<Rightarrow> string \<Rightarrow> bool" where
  "compatible d b = (complete d b \<and> on_shapes shape_compatible d b)"

definition fusable :: "('a, 'd) tdict \<Rightarrow> string \<Rightarrow> bool" where
  "fusable d b = (complete d b \<and> on_shapes shapes_accepted d b)"

text \<open>
  The output keys that the conversion may write: \<open>all_targets\<close> lists what the first loop
  writes for the keys of the input and the fused names of its group keys; \<open>other_targets\<close>
  leaves out the first write of one key, the one that stores its own tensor;
  \<open>fused_targets\<close> lists the fused names of the fusable groups, the only names that the
  second loop writes.
\<close>

definition all_targets :: "('a, 'd) tdict \<Rightarrow> string list" where
  "all_targets d =
     concat (map (\<lambda>kv. targets d (fst kv)) d) @ concat (map fused_names (group_keys d))"


definition fused_targets :: "('a, 'd) tdict \<Rightarrow> string list" where
  "fused_targets d = concat (map fused_names (filter (fusable d) (group_keys d)))"

text \<open>
  The writes that follow the one that stores the tensor of a key under its name or its new
  name: \<open>later_writes d key\<close> lists the rest of the writes made for the key and the writes
  made for the keys that come after it in the input. \<open>last_write ws x\<close> is the tensor of the
  last write under the name \<open>x\<close> in a list of writes, and a name is \<open>rewritten\<close> after the
  write of a key when the last of the later writes under this name stores another tensor.
\<close>

definition later_writes :: "('a, 'd) tdict \<Rightarrow> string \<Rightarrow> ('a, 'd) tdict" where
  "later_writes d key =
     (case dropWhile (\<lambda>kv. fst kv \<noteq> key) d of
        [] \<Rightarrow> []
      | kv # rest \<Rightarrow> tl (step_writes d kv) @ concat (map (step_writes d) rest))"

definition last_write :: "('a, 'd) tdict \<Rightarrow> string \<Rightarrow> ('a, 'd) tensor option" where
  "last_write ws x = map_of (rev ws) x"

definition rewritten :: "('a, 'd) tdict \<Rightarrow> string \<Rightarrow> string \<Rightarrow> ('a, 'd) tensor \<Rightarrow> bool" where
  "rewritten d key x v =
     (case last_write (later_writes d key) x of None \<Rightarrow> False | Some v' \<Rightarrow> v' \<noteq> v)"

section \<open>Formats and inputs of the examples\<close>

text \<open>
  An instance of the formats for the examples. The elements are integers; \<open>Int8\<close> and
  \<open>Int32\<close> wrap as the conversion to an integer format does, \<open>Float16\<close> and \<open>Float32\<close>
  round an integer to 11 and 24 significant bits, to nearest and ties to even. The examples
  stay below the largest finite numbers of the float formats; this instance has no
  infinities. The product of an integer tensor with a Python float is a \<open>Float32\<close> tensor.
\<close>

datatype demo_dtype = Int8 | Int32 | Float16 | Float32

fun bit_length :: "nat \<Rightarrow> nat" where
  "bit_length n = (if n = 0 then 0 else Suc (bit_length (n div 2)))"

definition wrap :: "nat \<Rightarrow> int \<Rightarrow> int" where
  "wrap w x = (x + 2 ^ (w - 1)) mod 2 ^ w - 2 ^ (w - 1)"

definition round_bits :: "nat \<Rightarrow> int \<Rightarrow> int" where
  "round_bits p x =
     (let a = nat \<bar>x\<bar>; n = bit_length a
      in if n \<le> p then x
         else (let s = n - p; q = a div 2 ^ s; r = a mod 2 ^ s;
                   q' = (if 2 * r > 2 ^ s \<or> (2 * r = 2 ^ s \<and> odd q) then q + 1 else q)
               in sgn x * int (q' * 2 ^ s)))"

definition demo_formats :: "(int, demo_dtype) formats" where
  "demo_formats =
     \<lparr>cast = (\<lambda>d x. case d of Int8 \<Rightarrow> wrap 8 x | Int32 \<Rightarrow> wrap 32 x
                     | Float16 \<Rightarrow> round_bits 11 x | Float32 \<Rightarrow> round_bits 24 x),
      promote = (\<lambda>a b. if a = Float32 \<or> b = Float32 then Float32
                       else if a = Float16 \<or> b = Float16 then Float16
                       else if a = Int32 \<or> b = Int32 then Int32 else Int8),
      scalar_type = (\<lambda>d. case d of Int8 \<Rightarrow> Float32 | Int32 \<Rightarrow> Float32 | _ \<Rightarrow> d)\<rparr>"

definition f16 :: "nat list \<Rightarrow> int list \<Rightarrow> (int, demo_dtype) tensor" where
  "f16 s xs = \<lparr>dtype = Float16, shape = s, vals = xs\<rparr>"

definition f32 :: "nat list \<Rightarrow> int list \<Rightarrow> (int, demo_dtype) tensor" where
  "f32 s xs = \<lparr>dtype = Float32, shape = s, vals = xs\<rparr>"

definition single :: "int \<Rightarrow> (int, demo_dtype) tensor" where
  "single x = f32 [1] [x]"

text \<open>
  Primitives for concrete runs: the loaders return the dictionary given, and saving counts
  the files written. \<open>recording\<close> is a callback that keeps the reports it gets, \<open>raising\<close>
  one that raises at its first call.
\<close>

definition demo_env :: "(int, demo_dtype) tdict \<Rightarrow> (int, demo_dtype, nat) io" where
  "demo_env d = \<lparr>load_file = (\<lambda>p w. Inr d), torch_load = (\<lambda>p w. Inr d),
                 save_file = (\<lambda>out p m w. (None, Suc w))\<rparr>"

definition recording :: "(int \<times> string) list callback" where
  "recording p l ob = (None, ob @ [(p, l)])"


text \<open>A small input: one complete group with its alpha, all tensors of format \<open>Float32\<close>.\<close>

definition demo_dict :: "(int, demo_dtype) tdict" where
  "demo_dict =
     [(''m.attention.to_q.lora_A.weight'', f32 [1, 2] [1, 2]),
      (''m.attention.to_q.lora_B.weight'', f32 [2, 1] [3, 4]),
      (''m.attention.to_k.lora_A.weight'', f32 [1, 2] [5, 6]),
      (''m.attention.to_k.lora_B.weight'', f32 [2, 1] [7, 8]),
      (''m.attention.to_v.lora_A.weight'', f32 [1, 2] [9, 10]),
      (''m.attention.to_v.lora_B.weight'', f32 [2, 1] [11, 12]),
      (''m.attention.to_q.alpha'', f32 [] [8])]"

text \<open>
  The same group with other alpha entries: the tensors given are stored, in this order, under
  \<open>m.attention.to_q.alpha\<close> and \<open>m.attention.to_q.lora_A.alpha\<close>.
\<close>

definition demo_alpha :: "(int, demo_dtype) tensor list \<Rightarrow> (int, demo_dtype) tdict" where
  "demo_alpha alphas =
     butlast demo_dict @
     map2 Pair [''m.attention.to_q.alpha'', ''m.attention.to_q.lora_A.alpha''] alphas"

text \<open>
  The same group with other factors: \<open>demo_factors qB kB kA\<close> has the factor B of q, the
  factor B of k and the factor A of k replaced by the tensors given.
\<close>

definition demo_factors ::
  "(int, demo_dtype) tensor \<Rightarrow> (int, demo_dtype) tensor \<Rightarrow> (int, demo_dtype) tensor
   \<Rightarrow> (int, demo_dtype) tdict" where
  "demo_factors qB kB kA =
     [(''m.attention.to_q.lora_A.weight'', f32 [1, 2] [1, 2]),
      (''m.attention.to_q.lora_B.weight'', qB),
      (''m.attention.to_k.lora_A.weight'', kA),
      (''m.attention.to_k.lora_B.weight'', kB),
      (''m.attention.to_v.lora_A.weight'', f32 [1, 2] [9, 10]),
      (''m.attention.to_v.lora_B.weight'', f32 [2, 1] [11, 12]),
      (''m.attention.to_q.alpha'', f32 [] [8])]"

text \<open>
  An input with an out-projection factor and its alpha, a key of another module, a q key
  without a factor segment and the alpha of an attention sub-module that is not q, k or v.
\<close>

definition mixed_dict :: "(int, demo_dtype) tdict" where
  "mixed_dict =
     [(''m.attention.to_out.0.lora_A.weight'', single 1),
      (''m.attention.to_out.0.alpha'', single 2),
      (''m.ff.w'', single 3),
      (''m.attention.to_q.weight'', single 4),
      (''m.attention.to_gate.alpha'', single 5)]"

section \<open>Properties of the loops\<close>

subsection \<open>Dictionaries\<close>

lemma map_of_dict_set: "map_of (dict_set k v d) = (map_of d)(k \<mapsto> v)"
  by (induction d) (auto simp: fun_eq_iff)

lemma keys_dict_set: "fst ` set (dict_set k v d) = insert k (fst ` set d)"
  by (induction d) auto

lemma distinct_dict_set: "distinct (map fst d) \<Longrightarrow> distinct (map fst (dict_set k v d))"
proof (induction d)
  case Nil
  then show ?case by simp
next
  case (Cons e d)
  then show ?case
    using keys_dict_set [of k v d] by (auto simp: image_iff)
qed

subsection \<open>The progress callback\<close>

lemma report_normal:
  "returns_normally pc \<Longrightarrow> fst (report pc c p l ob) = None"
  by (cases pc) (simp_all add: report_def returns_normally_def)


lemma report_raises: "report pc c p l ob = (Some e, ob') \<Longrightarrow> \<not> returns_normally pc"
  using report_normal [of pc c p l ob] by auto

lemma parse_loop_cases:
  "parse_loop pc d xs (p, ob, cst) = (r, p', ob', cst') \<Longrightarrow>
   (case r of None \<Rightarrow> cst' = fold (classify_step d) xs cst | Some e \<Rightarrow> \<not> returns_normally pc)"
proof (induction xs arbitrary: p ob cst)
  case Nil
  then show ?case by simp
next
  case (Cons x xs)
  let ?r = "report pc ((p + 1) mod 100 = 0) (10 + (40 * int (p + 1)) div int (length d))
              ''Parsing keys...'' ob"
  obtain re ob1 where r: "?r = (re, ob1)" by (cases ?r)
  show ?case
  proof (cases re)
    case None
    then have eq: "parse_loop pc d (x # xs) (p, ob, cst)
        = parse_loop pc d xs (p + 1, ob1, classify_step d x cst)"
      using r by (simp add: Let_def)
    have "parse_loop pc d xs (p + 1, ob1, classify_step d x cst) = (r, p', ob', cst')"
      using Cons.prems unfolding eq .
    then show ?thesis
      using Cons.IH [of "p + 1" ob1 "classify_step d x cst"] by (cases r) simp_all
  next
    case (Some e)
    then have eq: "parse_loop pc d (x # xs) (p, ob, cst) = (Some e, p + 1, ob1, cst)"
      using r by (simp add: Let_def)
    have "r = Some e"
      using Cons.prems unfolding eq by simp
    moreover have "\<not> returns_normally pc"
      using r Some by (auto dest: report_raises)
    ultimately show ?thesis by simp
  qed
qed

lemma convert_tensors_cases:
  "(case fst (convert_tensors fmt pc d ob) of
      Inl e \<Rightarrow> \<not> returns_normally pc
    | Inr x \<Rightarrow> x = merged fmt d)"
proof -
  obtain r p' ob' out g where f: "parse_loop pc d d (0, ob, [], []) = (r, p', ob', out, g)"
    by (metis prod_cases5)
  note c = parse_loop_cases [OF f]
  show ?thesis
  proof (cases r)
    case None
    then have "(out, g) = parsed d" using c by (simp add: parsed_def)
    then have "fst (convert_tensors fmt pc d ob) = Inr (merged fmt d)"
      using f None by (simp add: convert_tensors_def merged_def split: prod.splits)
    then show ?thesis by simp
  next
    case (Some e)
    then show ?thesis using f c by (simp add: convert_tensors_def)
  qed
qed

lemma convert_tensors_intro:
  assumes "P (fst (merged fmt d)) (snd (merged fmt d))"
  shows "(case fst (convert_tensors fmt pc d ob) of
            Inl e \<Rightarrow> \<not> returns_normally pc
          | Inr (out, n) \<Rightarrow> P out n)"
  using convert_tensors_cases [where fmt = fmt and pc = pc and d = d and ob = ob] assms
  by (auto split: sum.splits)


subsection \<open>One step of the first loop\<close>

lemma classify_step_alt:
  "classify_step d (k, v) (out, g) =
     (if is_out_key k then
        (if str_in ''lora_A'' k
         then (case map_of d (str_rsplit1_head ''.lora_A'' k @ ''.alpha'') of
                 Some alpha \<Rightarrow>
                   (dict_set (rename_out (str_rsplit1_head ''.lora_A'' k @ ''.alpha'')) alpha
                      (dict_set (rename_out k) v out), g)
               | None \<Rightarrow> (dict_set (rename_out k) v out, g))
         else (dict_set (rename_out k) v out, g))
      else if is_alpha_skip k then (out, g)
      else if qkv_pattern k \<and> truthy (axis_segment k) \<and> truthy (factor_segment k)
      then (out, groups_set (group_key k) (the (axis_segment k)) (the (factor_segment k)) v g)
      else (dict_set k v out, g))"
  unfolding classify_step_def is_out_key_def rename_out_def is_alpha_skip_def qkv_pattern_def
    axis_segment_def factor_segment_def group_key_def
  by (auto simp add: Let_def)

lemma classify_step_out:
  "is_out_key k \<Longrightarrow>
   classify_step d (k, v) (out, g) =
     (if str_in ''lora_A'' k
      then (case map_of d (str_rsplit1_head ''.lora_A'' k @ ''.alpha'') of
              Some alpha \<Rightarrow>
                (dict_set (rename_out (str_rsplit1_head ''.lora_A'' k @ ''.alpha'')) alpha
                   (dict_set (rename_out k) v out), g)
            | None \<Rightarrow> (dict_set (rename_out k) v out, g))
      else (dict_set (rename_out k) v out, g))"
  by (simp add: classify_step_alt)

lemma classify_step_skip:
  "\<not> is_out_key k \<Longrightarrow> is_alpha_skip k \<Longrightarrow> classify_step d (k, v) (out, g) = (out, g)"
  by (simp add: classify_step_alt)

lemma classify_step_slot:
  "merge_slot k = Some (b, a, l) \<Longrightarrow>
   classify_step d (k, v) (out, g) = (out, groups_set b a l v g)"
  by (simp add: classify_step_alt merge_slot_def split: if_splits)

lemma classify_step_pass:
  "\<not> is_out_key k \<Longrightarrow> \<not> is_alpha_skip k \<Longrightarrow> merge_slot k = None \<Longrightarrow>
   classify_step d (k, v) (out, g) = (dict_set k v out, g)"
  by (auto simp add: classify_step_alt merge_slot_def split: if_splits)

lemma merge_slot_not_out: "merge_slot k = Some s \<Longrightarrow> \<not> is_out_key k \<and> \<not> is_alpha_skip k"
  by (simp add: merge_slot_def split: if_splits)

lemma classify_step_cases:
  obtains (out) "is_out_key k" "merge_slot k = None"
  | (skip) "\<not> is_out_key k" "is_alpha_skip k" "merge_slot k = None"
  | (slot) b a l where "\<not> is_out_key k" "\<not> is_alpha_skip k" "merge_slot k = Some (b, a, l)"
  | (pass) "\<not> is_out_key k" "\<not> is_alpha_skip k" "merge_slot k = None"
proof (cases "merge_slot k")
  case None
  then show ?thesis using out skip pass by blast
next
  case (Some s)
  obtain b a l where "s = (b, a, l)" by (cases s) auto
  then show ?thesis using Some merge_slot_not_out [of k s] slot by blast
qed

lemma classify_step_groups:
  "snd (classify_step d (k, v) (out, g)) =
     (case merge_slot k of None \<Rightarrow> g | Some (b, a, l) \<Rightarrow> groups_set b a l v g)"
  by (rule classify_step_cases [of k])
     (simp_all add: classify_step_out classify_step_skip classify_step_slot classify_step_pass
        split: option.splits)

lemma targets_out: "is_out_key k \<Longrightarrow> targets d k = rename_out k # companion_alpha d k"
  by (simp add: targets_def)

lemma targets_skip: "\<not> is_out_key k \<Longrightarrow> is_alpha_skip k \<Longrightarrow> targets d k = []"
  by (simp add: targets_def)

lemma targets_slot: "merge_slot k = Some s \<Longrightarrow> targets d k = []"
  using merge_slot_not_out [of k s] by (simp add: targets_def)

lemma targets_pass:
  "\<not> is_out_key k \<Longrightarrow> \<not> is_alpha_skip k \<Longrightarrow> merge_slot k = None \<Longrightarrow> targets d k = [k]"
  by (simp add: targets_def)

lemma classify_step_out_fst:
  assumes "is_out_key k"
  shows "fst (classify_step d (k, v) (out, g)) =
     (case companion_alpha d k of
        [] \<Rightarrow> dict_set (rename_out k) v out
      | c # cs \<Rightarrow> dict_set c (the (map_of d (str_rsplit1_head ''.lora_A'' k @ ''.alpha'')))
                   (dict_set (rename_out k) v out))"
proof (cases "str_in ''lora_A'' k")
  case False
  then show ?thesis using assms by (simp add: classify_step_out companion_alpha_def)
next
  case True
  show ?thesis
  proof (cases "map_of d (str_rsplit1_head ''.lora_A'' k @ ''.alpha'')")
    case None
    then show ?thesis using assms True by (simp add: classify_step_out companion_alpha_def)
  next
    case (Some a)
    then show ?thesis using assms True by (simp add: classify_step_out companion_alpha_def)
  qed
qed

lemma classify_step_other:
  assumes "x \<notin> set (targets d k)"
  shows "map_of (fst (classify_step d (k, v) (out, g))) x = map_of out x"
proof (rule classify_step_cases [of k])
  assume o: "is_out_key k" "merge_slot k = None"
  show ?thesis
  proof (cases "companion_alpha d k")
    case Nil
    then show ?thesis
      using assms o by (simp add: classify_step_out_fst targets_out map_of_dict_set)
  next
    case (Cons c cs)
    then show ?thesis
      using assms o by (simp add: classify_step_out_fst targets_out map_of_dict_set)
  qed
next
  assume "\<not> is_out_key k" "is_alpha_skip k" "merge_slot k = None"
  then show ?thesis by (simp add: classify_step_skip)
next
  fix b a l
  assume "\<not> is_out_key k" "\<not> is_alpha_skip k" "merge_slot k = Some (b, a, l)"
  then show ?thesis by (simp add: classify_step_slot)
next
  assume "\<not> is_out_key k" "\<not> is_alpha_skip k" "merge_slot k = None"
  then show ?thesis
    using assms by (simp add: classify_step_pass targets_pass map_of_dict_set)
qed


lemma companion_alpha_length: "length (companion_alpha d k) \<le> 1"
  by (simp add: companion_alpha_def split: option.split)

lemma classify_step_keys:
  "fst ` set (fst (classify_step d (k, v) (out, g))) = fst ` set out \<union> set (targets d k)"
proof (rule classify_step_cases [of k])
  assume o: "is_out_key k" "merge_slot k = None"
  show ?thesis
  proof (cases "companion_alpha d k")
    case Nil
    then show ?thesis
      using o by (simp add: classify_step_out_fst targets_out keys_dict_set)
  next
    case (Cons c cs)
    then have "cs = []" using companion_alpha_length [of d k] by simp
    then show ?thesis
      using o Cons by (auto simp add: classify_step_out_fst targets_out keys_dict_set)
  qed
next
  assume "\<not> is_out_key k" "is_alpha_skip k" "merge_slot k = None"
  then show ?thesis by (simp add: classify_step_skip targets_skip)
next
  fix b a l
  assume "\<not> is_out_key k" "\<not> is_alpha_skip k" "merge_slot k = Some (b, a, l)"
  then show ?thesis by (simp add: classify_step_slot targets_slot)
next
  assume "\<not> is_out_key k" "\<not> is_alpha_skip k" "merge_slot k = None"
  then show ?thesis
    by (simp add: classify_step_pass targets_pass keys_dict_set)
qed

lemma classify_step_distinct:
  "distinct (map fst out) \<Longrightarrow> distinct (map fst (fst (classify_step d (k, v) (out, g))))"
  by (auto simp add: classify_step_alt distinct_dict_set split: option.split)

subsection \<open>Storing into a group\<close>

lemma get_slot_groups_set:
  "get_slot (groups_set b a l v g) b' a' l' =
     (if b' = b \<and> a' = a \<and> l' = l then Some v else get_slot g b' a' l')"
  by (auto simp add: get_slot_def groups_set_def Let_def map_of_dict_set split: option.splits)

lemma keys_groups_set: "fst ` set (groups_set b a l v g) = insert b (fst ` set g)"
  by (simp add: groups_set_def Let_def keys_dict_set)

lemma distinct_groups_set: "distinct (map fst g) \<Longrightarrow> distinct (map fst (groups_set b a l v g))"
  by (simp add: groups_set_def Let_def distinct_dict_set)

subsection \<open>The first loop\<close>

lemma fold_classify_other:
  "\<forall>kv\<in>set xs. x \<notin> set (targets d (fst kv)) \<Longrightarrow>
   map_of (fst (fold (classify_step d) xs (out, g))) x = map_of out x"
proof (induction xs arbitrary: out g)
  case Nil
  then show ?case by simp
next
  case (Cons kv xs)
  obtain k v where kv: "kv = (k, v)" by (cases kv)
  obtain out' g' where st: "classify_step d (k, v) (out, g) = (out', g')"
    by (cases "classify_step d (k, v) (out, g)")
  have "x \<notin> set (targets d k)" using Cons.prems kv by simp
  then have "map_of out' x = map_of out x"
    using classify_step_other [of x d k v out g] st by simp
  moreover have "map_of (fst (fold (classify_step d) xs (out', g'))) x = map_of out' x"
    using Cons.prems by (intro Cons.IH) simp
  ultimately show ?case by (simp add: kv st)
qed

lemma fold_classify_keys:
  "fst ` set (fst (fold (classify_step d) xs (out, g))) =
     fst ` set out \<union> (\<Union>kv\<in>set xs. set (targets d (fst kv)))"
proof (induction xs arbitrary: out g)
  case Nil
  then show ?case by simp
next
  case (Cons kv xs)
  obtain k v where kv: "kv = (k, v)" by (cases kv)
  obtain out' g' where st: "classify_step d (k, v) (out, g) = (out', g')"
    by (cases "classify_step d (k, v) (out, g)")
  have "fst ` set out' = fst ` set out \<union> set (targets d k)"
    using classify_step_keys [of d k v out g] st by simp
  then show ?case
    using Cons.IH [of out' g'] by (auto simp add: kv st)
qed

lemma fold_classify_distinct:
  "distinct (map fst out) \<Longrightarrow> distinct (map fst (fst (fold (classify_step d) xs (out, g))))"
proof (induction xs arbitrary: out g)
  case Nil
  then show ?case by simp
next
  case (Cons kv xs)
  obtain k v where kv: "kv = (k, v)" by (cases kv)
  obtain out' g' where st: "classify_step d (k, v) (out, g) = (out', g')"
    by (cases "classify_step d (k, v) (out, g)")
  have "distinct (map fst out')"
    using classify_step_distinct [of out d k v g] Cons.prems st by simp
  then show ?case
    using Cons.IH [of out' g'] by (simp add: kv st)
qed

lemma fold_classify_slot:
  "get_slot (snd (fold (classify_step d) xs (out, g))) b a l =
     (case last_slot xs (b, a, l) of Some t \<Rightarrow> Some t | None \<Rightarrow> get_slot g b a l)"
proof (induction xs arbitrary: out g)
  case Nil
  then show ?case by simp
next
  case (Cons kv xs)
  obtain k v where kv: "kv = (k, v)" by (cases kv)
  obtain out' g' where st: "classify_step d (k, v) (out, g) = (out', g')"
    by (cases "classify_step d (k, v) (out, g)")
  have g': "g' = (case merge_slot k of None \<Rightarrow> g | Some (b, a, l) \<Rightarrow> groups_set b a l v g)"
    using classify_step_groups [of d k v out g] st by simp
  have "get_slot g' b a l = (if merge_slot k = Some (b, a, l) then Some v else get_slot g b a l)"
    by (auto simp add: g' get_slot_groups_set split: option.splits)
  then show ?case
    using Cons.IH [of out' g'] by (simp add: kv st split: option.splits)
qed

lemma fold_classify_group_keys:
  "fst ` set (snd (fold (classify_step d) xs (out, g))) = fst ` set g \<union> set (group_keys xs)"
proof (induction xs arbitrary: out g)
  case Nil
  then show ?case by (simp add: group_keys_def List.map_filter_simps)
next
  case (Cons kv xs)
  obtain k v where kv: "kv = (k, v)" by (cases kv)
  obtain out' g' where st: "classify_step d (k, v) (out, g) = (out', g')"
    by (cases "classify_step d (k, v) (out, g)")
  have g': "g' = (case merge_slot k of None \<Rightarrow> g | Some (b, a, l) \<Rightarrow> groups_set b a l v g)"
    using classify_step_groups [of d k v out g] st by simp
  have "fst ` set g' = fst ` set g \<union> set (group_keys [(k, v)])"
    by (auto simp add: g' keys_groups_set group_keys_def List.map_filter_simps split: option.splits)
  moreover have "set (group_keys (kv # xs)) = set (group_keys [(k, v)]) \<union> set (group_keys xs)"
    by (auto simp add: kv group_keys_def List.map_filter_simps split: option.splits)
  ultimately show ?case
    using Cons.IH [of out' g'] by (auto simp add: kv st)
qed

lemma fold_classify_groups_distinct:
  "distinct (map fst g) \<Longrightarrow> distinct (map fst (snd (fold (classify_step d) xs (out, g))))"
proof (induction xs arbitrary: out g)
  case Nil
  then show ?case by simp
next
  case (Cons kv xs)
  obtain k v where kv: "kv = (k, v)" by (cases kv)
  obtain out' g' where st: "classify_step d (k, v) (out, g) = (out', g')"
    by (cases "classify_step d (k, v) (out, g)")
  have g': "g' = (case merge_slot k of None \<Rightarrow> g | Some (b, a, l) \<Rightarrow> groups_set b a l v g)"
    using classify_step_groups [of d k v out g] st by simp
  have "distinct (map fst g')"
    using Cons.prems by (auto simp add: g' distinct_groups_set split: option.splits)
  then show ?case
    using Cons.IH [of g' out'] by (simp add: kv st)
qed

subsection \<open>Loading and saving\<close>


subsection \<open>Slice assignment and concatenation\<close>

lemma index_lt: "i < m \<Longrightarrow> j < n \<Longrightarrow> i * n + j < m * (n::nat)"
proof -
  assume a: "i < m" "j < n"
  then have "i * n + j < i * n + n" by simp
  also have "\<dots> = Suc i * n" by simp
  also have "\<dots> \<le> m * n" using a(1) by (intro mult_le_mono1) simp
  finally show ?thesis .
qed

lemma index_div_mod: "j < n \<Longrightarrow> (i * n + j) div n = i \<and> (i * n + j) mod n = (j::nat)"
  by simp

lemma setitem2_Inr:
  assumes "shape dst = [m, n]"
  shows "setitem2 fmt dst r0 r1 c0 c1 src =
     (if expandable (shape src) (min r1 m - r0) (min c1 n - c0)
      then Inr \<lparr>dtype = dtype dst, shape = [m, n],
                 vals = map (\<lambda>idx.
                   if r0 \<le> idx div n \<and> idx div n < min r1 m \<and> c0 \<le> idx mod n \<and> idx mod n < min c1 n
                   then convert_elem fmt (dtype src) (dtype dst)
                          (expanded_elem src (idx div n - r0) (idx mod n - c0))
                   else vals dst ! idx) [0..<m * n]\<rparr>
      else Inl (RuntimeError ''setitem''))"
  using assms by (simp add: setitem2_def Let_def)

lemma setitem2_shape:
  "shape dst = [m, n] \<Longrightarrow> setitem2 fmt dst r0 r1 c0 c1 src = Inr dst' \<Longrightarrow> shape dst' = [m, n]"
  by (auto simp add: setitem2_Inr split: if_splits)

lemma setitem2_dtype:
  "shape dst = [m, n] \<Longrightarrow> setitem2 fmt dst r0 r1 c0 c1 src = Inr dst' \<Longrightarrow> dtype dst' = dtype dst"
  by (auto simp add: setitem2_Inr split: if_splits)

lemma setitem2_elem:
  assumes "shape dst = [m, n]" and "setitem2 fmt dst r0 r1 c0 c1 src = Inr dst'"
    and "i < m" and "j < n"
  shows "elem2 dst' i j =
     (if r0 \<le> i \<and> i < min r1 m \<and> c0 \<le> j \<and> j < min c1 n
      then convert_elem fmt (dtype src) (dtype dst) (expanded_elem src (i - r0) (j - c0))
      else elem2 dst i j)"
proof -
  have lt: "i * n + j < m * n" using assms(3,4) by (rule index_lt)
  have dm: "(i * n + j) div n = i" "(i * n + j) mod n = j"
    using index_div_mod [OF assms(4), of i] by simp_all
  have "dst' = \<lparr>dtype = dtype dst, shape = [m, n],
                 vals = map (\<lambda>idx.
                   if r0 \<le> idx div n \<and> idx div n < min r1 m \<and> c0 \<le> idx mod n \<and> idx mod n < min c1 n
                   then convert_elem fmt (dtype src) (dtype dst)
                          (expanded_elem src (idx div n - r0) (idx mod n - c0))
                   else vals dst ! idx) [0..<m * n]\<rparr>"
    using assms(1,2) by (auto simp add: setitem2_Inr split: if_splits)
  then show ?thesis
    using lt dm assms(1) by (simp add: elem2_def)
qed

lemma expandable_exact: "expandable [h, r] h r"
  by (simp add: expandable_def)

lemma expanded_elem_exact:
  "shape src = [h, r] \<Longrightarrow> i < h \<Longrightarrow> j < r \<Longrightarrow> expanded_elem src i j = elem2 src i j"
  by (auto simp add: expanded_elem_def elem2_def)

lemma elem2_zeros2: "i < m \<Longrightarrow> j < n \<Longrightarrow> elem2 (zeros2 d m n) i j = 0"
  using index_lt [of i m j n] by (simp add: elem2_def zeros2_def)

lemma elem2_to_dtype:
  "well_shaped t [h, r] \<Longrightarrow> i < h \<Longrightarrow> j < r \<Longrightarrow>
   elem2 (to_dtype fmt d t) i j = convert_elem fmt (dtype t) d (elem2 t i j)"
  using index_lt [of i h j r] by (simp add: elem2_def to_dtype_def well_shaped_def)

lemma well_shaped_to_dtype: "well_shaped t s \<Longrightarrow> well_shaped (to_dtype fmt d t) s"
  by (simp add: well_shaped_def to_dtype_def)

lemma convert_elem_same: "convert_elem fmt d d = (\<lambda>x. x)"
  by (simp add: fun_eq_iff convert_elem_def)

lemma to_dtype_same: "to_dtype fmt (dtype t) t = t"
  by (simp add: to_dtype_def convert_elem_same)

lemma block2_eqI:
  assumes "well_shaped t [h, r]" and "dtype B = dtype t"
    and "\<And>i j. i < h \<Longrightarrow> j < r \<Longrightarrow> elem2 B (bi * h + i) (bj * r + j) = elem2 t i j"
  shows "block2 B h r bi bj = t"
proof -
  have len: "length (vals t) = h * r" and sh: "shape t = [h, r]"
    using assms(1) by (simp_all add: well_shaped_def)
  have "map (\<lambda>idx. elem2 B (bi * h + idx div r) (bj * r + idx mod r)) [0..<h * r]
        = map (\<lambda>idx. vals t ! idx) [0..<h * r]"
  proof (rule map_cong [OF refl])
    fix idx assume "idx \<in> set [0..<h * r]"
    then have lt: "idx < h * r" by simp
    then have r: "0 < r" by (cases r) simp_all
    have "idx div r < h" using lt r by (simp add: less_mult_imp_div_less mult.commute)
    moreover have "idx mod r < r" using r by simp
    ultimately have "elem2 B (bi * h + idx div r) (bj * r + idx mod r) = elem2 t (idx div r) (idx mod r)"
      by (rule assms(3))
    also have "\<dots> = vals t ! idx" by (simp add: elem2_def sh)
    finally show "elem2 B (bi * h + idx div r) (bj * r + idx mod r) = vals t ! idx" .
  qed
  also have "\<dots> = vals t" using len map_nth [of "vals t"] by simp
  finally show ?thesis
    using sh assms(2) by (simp add: block2_def)
qed

lemma block2_zero:
  assumes "\<And>i j. i < h \<Longrightarrow> j < r \<Longrightarrow> elem2 B (bi * h + i) (bj * r + j) = 0"
  shows "block2 B h r bi bj = \<lparr>dtype = dtype B, shape = [h, r], vals = replicate (h * r) 0\<rparr>"
proof -
  let ?Z = "\<lparr>dtype = dtype B, shape = [h, r], vals = replicate (h * r) 0\<rparr>"
  have w: "well_shaped ?Z [h, r]" by (simp add: well_shaped_def)
  have z: "elem2 ?Z i j = 0" if "i < h" "j < r" for i j
    using index_lt [OF that] by (simp add: elem2_def)
  show ?thesis
    by (rule block2_eqI [OF w]) (simp_all add: assms z)
qed

lemma cat0_success: "(\<exists>t. cat0 fmt ts = Inr t) = cat_accepted (map shape ts)"
proof -
  have f: "filter (\<lambda>s. s \<noteq> [0]) (map shape ts) = map shape (filter (\<lambda>t. shape t \<noteq> [0]) ts)"
    by (simp add: filter_map comp_def)
  show ?thesis
  proof (cases "filter (\<lambda>t. shape t \<noteq> [0]) ts")
    case Nil
    have "cat_accepted (map shape ts) = (ts \<noteq> [])"
      unfolding cat_accepted_def f Nil by simp
    moreover have "(\<exists>t. cat0 fmt ts = Inr t) = (ts \<noteq> [])"
      using Nil by (cases ts) (simp_all add: cat0_def Let_def)
    ultimately show ?thesis by simp
  next
    case (Cons t us)
    have "(\<exists>x. cat0 fmt ts = Inr x) =
       (shape t \<noteq> [] \<and> list_all (\<lambda>u. shape u \<noteq> [] \<and> tl (shape u) = tl (shape t)) us)"
      using Cons by (cases ts) (simp_all add: cat0_def Let_def)
    moreover have "cat_accepted (map shape ts) =
       (shape t \<noteq> [] \<and> list_all (\<lambda>u. shape u \<noteq> [] \<and> tl (shape u) = tl (shape t)) us)"
      unfolding cat_accepted_def f Cons by (simp add: list_all_iff)
    ultimately show ?thesis by simp
  qed
qed

lemma setitem2_success:
  "shape dst = [m, n] \<Longrightarrow>
   (\<exists>t. setitem2 fmt dst r0 r1 c0 c1 src = Inr t) = expandable (shape src) (min r1 m - r0) (min c1 n - c0)"
  by (simp add: setitem2_Inr)

subsection \<open>Building the fused pair\<close>

lemma bind_err_InrD: "bind_err y f = Inr z \<Longrightarrow> \<exists>u. y = Inr u"
  by (cases y) (simp_all add: bind_err_def)

lemma bind_err_Inr: "y = Inr u \<Longrightarrow> bind_err y f = f u"
  by (simp add: bind_err_def)

lemma build_qkv_lookups:
  assumes "build_qkv fmt q = Inr x"
  shows "\<exists>qB kB vB qA kA vA.
           lookup_slot q ''q'' ''lora_B'' = Inr qB \<and> lookup_slot q ''k'' ''lora_B'' = Inr kB \<and>
           lookup_slot q ''v'' ''lora_B'' = Inr vB \<and> lookup_slot q ''q'' ''lora_A'' = Inr qA \<and>
           lookup_slot q ''k'' ''lora_A'' = Inr kA \<and> lookup_slot q ''v'' ''lora_A'' = Inr vA"
proof -
  note b = bind_err_InrD and c = bind_err_Inr
  from assms obtain qB where 1: "lookup_slot q ''q'' ''lora_B'' = Inr qB"
    unfolding build_qkv_def by (blast dest: b)
  from assms obtain kB where 2: "lookup_slot q ''k'' ''lora_B'' = Inr kB"
    unfolding build_qkv_def c [OF 1] by (blast dest: b)
  from assms obtain vB where 3: "lookup_slot q ''v'' ''lora_B'' = Inr vB"
    unfolding build_qkv_def c [OF 1] c [OF 2] by (blast dest: b)
  from assms obtain qA where 4: "lookup_slot q ''q'' ''lora_A'' = Inr qA"
    unfolding build_qkv_def c [OF 1] c [OF 2] c [OF 3] by (blast dest: b)
  from assms obtain kA where 5: "lookup_slot q ''k'' ''lora_A'' = Inr kA"
    unfolding build_qkv_def c [OF 1] c [OF 2] c [OF 3] c [OF 4] by (blast dest: b)
  from assms obtain vA where 6: "lookup_slot q ''v'' ''lora_A'' = Inr vA"
    unfolding build_qkv_def c [OF 1] c [OF 2] c [OF 3] c [OF 4] c [OF 5] by (blast dest: b)
  show ?thesis using 1 2 3 4 5 6 by blast
qed

lemma build_qkv_found:
  assumes "lookup_slot q ''q'' ''lora_B'' = Inr qB" and "lookup_slot q ''k'' ''lora_B'' = Inr kB"
    and "lookup_slot q ''v'' ''lora_B'' = Inr vB" and "lookup_slot q ''q'' ''lora_A'' = Inr qA"
    and "lookup_slot q ''k'' ''lora_A'' = Inr kA" and "lookup_slot q ''v'' ''lora_A'' = Inr vA"
  shows "build_qkv fmt q =
     bind_err (unpack2 (shape qB)) (\<lambda>(h, r).
     bind_err (setitem2 fmt (zeros2 (dtype qB) (3 * h) (3 * r)) 0 h 0 r qB) (\<lambda>qkv_B.
     bind_err (setitem2 fmt qkv_B h (2 * h) r (2 * r) kB) (\<lambda>qkv_B.
     bind_err (setitem2 fmt qkv_B (2 * h) (3 * h) (2 * r) (3 * r) vB) (\<lambda>qkv_B.
     bind_err (cat0 fmt [qA, kA, vA]) (\<lambda>qkv_A.
     Inr (qkv_B, qkv_A))))))"
  using assms by (simp add: build_qkv_def bind_err_def)

lemma build_qkv_2d:
  fixes q :: "('a::zero, 'd) qkv"
  assumes "lookup_slot q ''q'' ''lora_B'' = Inr qB" and "lookup_slot q ''k'' ''lora_B'' = Inr kB"
    and "lookup_slot q ''v'' ''lora_B'' = Inr vB" and "lookup_slot q ''q'' ''lora_A'' = Inr qA"
    and "lookup_slot q ''k'' ''lora_A'' = Inr kA" and "lookup_slot q ''v'' ''lora_A'' = Inr vA"
    and "shape qB = [h, r]"
  shows "\<exists>B1. setitem2 fmt (zeros2 (dtype qB) (3 * h) (3 * r)) 0 h 0 r qB = Inr B1 \<and> shape B1 = [3 * h, 3 * r] \<and>
     dtype B1 = dtype qB \<and>
     build_qkv fmt q =
       bind_err (setitem2 fmt B1 h (2 * h) r (2 * r) kB) (\<lambda>qkv_B.
       bind_err (setitem2 fmt qkv_B (2 * h) (3 * h) (2 * r) (3 * r) vB) (\<lambda>qkv_B.
       bind_err (cat0 fmt [qA, kA, vA]) (\<lambda>qkv_A.
       Inr (qkv_B, qkv_A))))"
proof -
  have z: "shape (zeros2 (dtype qB) (3 * h) (3 * r) :: ('a, 'd) tensor) = [3 * h, 3 * r]"
    by (simp add: zeros2_def)
  have "\<exists>t. setitem2 fmt (zeros2 (dtype qB) (3 * h) (3 * r)) 0 h 0 r qB = Inr t"
    using setitem2_success [OF z, of fmt 0 h 0 r qB] assms(7) by (simp add: expandable_exact)
  then obtain B1 where b1: "setitem2 fmt (zeros2 (dtype qB) (3 * h) (3 * r)) 0 h 0 r qB = Inr B1" ..
  have "shape B1 = [3 * h, 3 * r]" using setitem2_shape [OF z b1] .
  moreover have "dtype B1 = dtype qB" using setitem2_dtype [OF z b1] by (simp add: zeros2_def)
  moreover have "build_qkv fmt q =
       bind_err (setitem2 fmt B1 h (2 * h) r (2 * r) kB) (\<lambda>qkv_B.
       bind_err (setitem2 fmt qkv_B (2 * h) (3 * h) (2 * r) (3 * r) vB) (\<lambda>qkv_B.
       bind_err (cat0 fmt [qA, kA, vA]) (\<lambda>qkv_A.
       Inr (qkv_B, qkv_A))))"
    unfolding build_qkv_found [OF assms(1-6)]
    using assms(7) b1 by (simp add: unpack2_def bind_err_def)
  ultimately show ?thesis using b1 by blast
qed

lemma build_qkv_success:
  assumes "lookup_slot q ''q'' ''lora_B'' = Inr qB" and "lookup_slot q ''k'' ''lora_B'' = Inr kB"
    and "lookup_slot q ''v'' ''lora_B'' = Inr vB" and "lookup_slot q ''q'' ''lora_A'' = Inr qA"
    and "lookup_slot q ''k'' ''lora_A'' = Inr kA" and "lookup_slot q ''v'' ''lora_A'' = Inr vA"
  shows "(\<exists>x. build_qkv fmt q = Inr x) =
     shapes_accepted (shape qB) (shape kB) (shape vB) (shape qA) (shape kA) (shape vA)"
proof (cases "\<exists>h r. shape qB = [h, r]")
  case False
  then have "unpack2 (shape qB) = Inl (ValueError ''unpack'')"
    by (auto simp add: unpack2_def split: list.splits)
  then have "build_qkv fmt q = Inl (ValueError ''unpack'')"
    unfolding build_qkv_found [OF assms] by (simp add: bind_err_def)
  moreover have "\<not> shapes_accepted (shape qB) (shape kB) (shape vB) (shape qA) (shape kA) (shape vA)"
    using False by (auto simp add: shapes_accepted_def split: list.splits)
  ultimately show ?thesis by simp
next
  case True
  then obtain h r where s: "shape qB = [h, r]" by blast
  obtain B1 where b1: "shape B1 = [3 * h, 3 * r]"
    and bq: "build_qkv fmt q =
       bind_err (setitem2 fmt B1 h (2 * h) r (2 * r) kB) (\<lambda>qkv_B.
       bind_err (setitem2 fmt qkv_B (2 * h) (3 * h) (2 * r) (3 * r) vB) (\<lambda>qkv_B.
       bind_err (cat0 fmt [qA, kA, vA]) (\<lambda>qkv_A.
       Inr (qkv_B, qkv_A))))"
    using build_qkv_2d [OF assms s] by blast
  have sc: "shapes_accepted (shape qB) (shape kB) (shape vB) (shape qA) (shape kA) (shape vA) =
     (expandable (shape kB) h r \<and> expandable (shape vB) h r \<and> cat_accepted [shape qA, shape kA, shape vA])"
    by (simp add: shapes_accepted_def s)
  have e2: "(\<exists>t. setitem2 fmt B1 h (2 * h) r (2 * r) kB = Inr t) = expandable (shape kB) h r"
    using setitem2_success [OF b1, of fmt h "2 * h" r "2 * r" kB] by simp
  show ?thesis
  proof (cases "setitem2 fmt B1 h (2 * h) r (2 * r) kB")
    case (Inl e)
    then show ?thesis using e2 by (simp add: bq sc bind_err_def)
  next
    case (Inr B2)
    have b2: "shape B2 = [3 * h, 3 * r]" using setitem2_shape [OF b1 Inr] .
    have e3: "(\<exists>t. setitem2 fmt B2 (2 * h) (3 * h) (2 * r) (3 * r) vB = Inr t) = expandable (shape vB) h r"
      using setitem2_success [OF b2, of fmt "2 * h" "3 * h" "2 * r" "3 * r" vB] by simp
    show ?thesis
    proof (cases "setitem2 fmt B2 (2 * h) (3 * h) (2 * r) (3 * r) vB")
      case (Inl e)
      then show ?thesis using e2 e3 Inr by (simp add: bq sc bind_err_def)
    next
      case B3: (Inr B3)
      have c: "(\<exists>t. cat0 fmt [qA, kA, vA] = Inr t) = cat_accepted [shape qA, shape kA, shape vA]"
        using cat0_success [of fmt "[qA, kA, vA]"] by simp
      show ?thesis
      proof (cases "cat0 fmt [qA, kA, vA]")
        case (Inl e)
        then show ?thesis using e2 e3 Inr B3 c by (simp add: bq sc bind_err_def)
      next
        case A: (Inr A)
        have "build_qkv fmt q = Inr (B3, A)" using Inr B3 A by (simp add: bq bind_err_def)
        moreover have "expandable (shape kB) h r" using e2 Inr by simp
        moreover have "expandable (shape vB) h r" using e3 B3 by simp
        moreover have "cat_accepted [shape qA, shape kA, shape vA]" using c A by simp
        ultimately show ?thesis by (simp add: sc)
      qed
    qed
  qed
qed

lemma cat0_rows:
  assumes "shape qA = [r, n]" and "shape kA = [r, n]" and "shape vA = [r, n]"
  shows "cat0 fmt [qA, kA, vA] = Inr (stacked fmt qA kA vA r n)"
proof -
  have "r + (r + r) = 3 * r" by simp
  then show ?thesis using assms by (simp add: cat0_def stacked_def Let_def)
qed

lemma build_qkv_exact:
  fixes q :: "('a::zero, 'd) qkv"
  assumes l: "lookup_slot q ''q'' ''lora_B'' = Inr qB" "lookup_slot q ''k'' ''lora_B'' = Inr kB"
    "lookup_slot q ''v'' ''lora_B'' = Inr vB" "lookup_slot q ''q'' ''lora_A'' = Inr qA"
    "lookup_slot q ''k'' ''lora_A'' = Inr kA" "lookup_slot q ''v'' ''lora_A'' = Inr vA"
    and sB: "shape qB = [h, r]" "shape kB = [h, r]" "shape vB = [h, r]"
    and sA: "shape qA = [r, n]" "shape kA = [r, n]" "shape vA = [r, n]"
  shows "\<exists>B. build_qkv fmt q = Inr (B, stacked fmt qA kA vA r n)
     \<and> shape B = [3 * h, 3 * r] \<and> dtype B = dtype qB
     \<and> (\<forall>i j. i < 3 * h \<longrightarrow> j < 3 * r \<longrightarrow>
          elem2 B i j =
            (if i < h \<and> j < r then elem2 qB i j
             else if h \<le> i \<and> i < 2 * h \<and> r \<le> j \<and> j < 2 * r
             then convert_elem fmt (dtype kB) (dtype qB) (elem2 kB (i - h) (j - r))
             else if 2 * h \<le> i \<and> 2 * r \<le> j
             then convert_elem fmt (dtype vB) (dtype qB) (elem2 vB (i - 2 * h) (j - 2 * r))
             else 0))"
proof -
  let ?Z = "zeros2 (dtype qB) (3 * h) (3 * r) :: ('a, 'd) tensor"
  have z: "shape ?Z = [3 * h, 3 * r]" by (simp add: zeros2_def)
  obtain B1 where b1: "setitem2 fmt ?Z 0 h 0 r qB = Inr B1" and s1: "shape B1 = [3 * h, 3 * r]"
    and d1: "dtype B1 = dtype qB"
    and bq: "build_qkv fmt q =
       bind_err (setitem2 fmt B1 h (2 * h) r (2 * r) kB) (\<lambda>qkv_B.
       bind_err (setitem2 fmt qkv_B (2 * h) (3 * h) (2 * r) (3 * r) vB) (\<lambda>qkv_B.
       bind_err (cat0 fmt [qA, kA, vA]) (\<lambda>qkv_A.
       Inr (qkv_B, qkv_A))))"
    using build_qkv_2d [OF l sB(1)] by blast
  have "\<exists>t. setitem2 fmt B1 h (2 * h) r (2 * r) kB = Inr t"
    using setitem2_success [OF s1, of fmt h "2 * h" r "2 * r" kB] sB(2) by (simp add: expandable_exact)
  then obtain B2 where b2: "setitem2 fmt B1 h (2 * h) r (2 * r) kB = Inr B2" ..
  have s2: "shape B2 = [3 * h, 3 * r]" using setitem2_shape [OF s1 b2] .
  have d2: "dtype B2 = dtype qB" using setitem2_dtype [OF s1 b2] d1 by simp
  have "\<exists>t. setitem2 fmt B2 (2 * h) (3 * h) (2 * r) (3 * r) vB = Inr t"
    using setitem2_success [OF s2, of fmt "2 * h" "3 * h" "2 * r" "3 * r" vB] sB(3)
    by (simp add: expandable_exact)
  then obtain B3 where b3: "setitem2 fmt B2 (2 * h) (3 * h) (2 * r) (3 * r) vB = Inr B3" ..
  have s3: "shape B3 = [3 * h, 3 * r]" using setitem2_shape [OF s2 b3] .
  have d3: "dtype B3 = dtype qB" using setitem2_dtype [OF s2 b3] d2 by simp
  have res: "build_qkv fmt q = Inr (B3, stacked fmt qA kA vA r n)"
    using b2 b3 cat0_rows [OF sA] by (simp add: bq bind_err_def)
  have el: "elem2 B3 i j =
            (if i < h \<and> j < r then elem2 qB i j
             else if h \<le> i \<and> i < 2 * h \<and> r \<le> j \<and> j < 2 * r
             then convert_elem fmt (dtype kB) (dtype qB) (elem2 kB (i - h) (j - r))
             else if 2 * h \<le> i \<and> 2 * r \<le> j
             then convert_elem fmt (dtype vB) (dtype qB) (elem2 vB (i - 2 * h) (j - 2 * r))
             else 0)" if ij: "i < 3 * h" "j < 3 * r" for i j
  proof -
    have dz: "dtype ?Z = dtype qB" by (simp add: zeros2_def)
    have e1: "elem2 B1 i j = (if i < h \<and> j < r then expanded_elem qB i j else 0)"
      using setitem2_elem [OF z b1 ij] elem2_zeros2 [OF ij, where ?'a = 'a and d = "dtype qB"]
      by (auto simp add: dz convert_elem_def)
    have e2: "elem2 B2 i j =
       (if h \<le> i \<and> i < 2 * h \<and> r \<le> j \<and> j < 2 * r
        then convert_elem fmt (dtype kB) (dtype qB) (expanded_elem kB (i - h) (j - r))
        else elem2 B1 i j)"
      using setitem2_elem [OF s1 b2 ij] by (auto simp add: d1)
    have e3: "elem2 B3 i j =
       (if 2 * h \<le> i \<and> 2 * r \<le> j
        then convert_elem fmt (dtype vB) (dtype qB) (expanded_elem vB (i - 2 * h) (j - 2 * r))
        else elem2 B2 i j)"
      using setitem2_elem [OF s2 b3 ij] ij by (auto simp add: d2)
    have x1: "i < h \<Longrightarrow> j < r \<Longrightarrow> expanded_elem qB i j = elem2 qB i j"
      by (rule expanded_elem_exact [OF sB(1)])
    have x2: "h \<le> i \<Longrightarrow> i < 2 * h \<Longrightarrow> r \<le> j \<Longrightarrow> j < 2 * r \<Longrightarrow>
              expanded_elem kB (i - h) (j - r) = elem2 kB (i - h) (j - r)"
      by (rule expanded_elem_exact [OF sB(2)]) simp_all
    have x3: "2 * h \<le> i \<Longrightarrow> 2 * r \<le> j \<Longrightarrow>
              expanded_elem vB (i - 2 * h) (j - 2 * r) = elem2 vB (i - 2 * h) (j - 2 * r)"
      using ij by (intro expanded_elem_exact [OF sB(3)]) simp_all
    show ?thesis
      unfolding e3 e2 e1 using x1 x2 x3 by auto
  qed
  show ?thesis using res s3 d3 el by blast
qed

lemma fused_blocks:
  assumes w: "well_shaped qB [h, r]" "well_shaped kB [h, r]" "well_shaped vB [h, r]"
    and sh: "shape B = [3 * h, 3 * r]" and dt: "dtype B = dtype qB"
    and el: "\<forall>i j. i < 3 * h \<longrightarrow> j < 3 * r \<longrightarrow>
          elem2 B i j =
            (if i < h \<and> j < r then elem2 qB i j
             else if h \<le> i \<and> i < 2 * h \<and> r \<le> j \<and> j < 2 * r
             then convert_elem fmt (dtype kB) (dtype qB) (elem2 kB (i - h) (j - r))
             else if 2 * h \<le> i \<and> 2 * r \<le> j
             then convert_elem fmt (dtype vB) (dtype qB) (elem2 vB (i - 2 * h) (j - 2 * r))
             else 0)"
  shows "block2 B h r 0 0 = qB"
    and "block2 B h r 1 1 = to_dtype fmt (dtype qB) kB"
    and "block2 B h r 2 2 = to_dtype fmt (dtype qB) vB"
    and "block2 B h r 0 1 = \<lparr>dtype = dtype qB, shape = [h, r], vals = replicate (h * r) 0\<rparr>"
    and "block2 B h r 0 2 = \<lparr>dtype = dtype qB, shape = [h, r], vals = replicate (h * r) 0\<rparr>"
    and "block2 B h r 1 0 = \<lparr>dtype = dtype qB, shape = [h, r], vals = replicate (h * r) 0\<rparr>"
    and "block2 B h r 1 2 = \<lparr>dtype = dtype qB, shape = [h, r], vals = replicate (h * r) 0\<rparr>"
    and "block2 B h r 2 0 = \<lparr>dtype = dtype qB, shape = [h, r], vals = replicate (h * r) 0\<rparr>"
    and "block2 B h r 2 1 = \<lparr>dtype = dtype qB, shape = [h, r], vals = replicate (h * r) 0\<rparr>"
proof -
  have e: "elem2 B i j =
            (if i < h \<and> j < r then elem2 qB i j
             else if h \<le> i \<and> i < 2 * h \<and> r \<le> j \<and> j < 2 * r
             then convert_elem fmt (dtype kB) (dtype qB) (elem2 kB (i - h) (j - r))
             else if 2 * h \<le> i \<and> 2 * r \<le> j
             then convert_elem fmt (dtype vB) (dtype qB) (elem2 vB (i - 2 * h) (j - 2 * r))
             else 0)" if "i < 3 * h" "j < 3 * r" for i j
    using el that by blast
  have tk: "elem2 (to_dtype fmt (dtype qB) kB) i j = convert_elem fmt (dtype kB) (dtype qB) (elem2 kB i j)"
    if "i < h" "j < r" for i j
    using elem2_to_dtype [OF w(2) that] .
  have tv: "elem2 (to_dtype fmt (dtype qB) vB) i j = convert_elem fmt (dtype vB) (dtype qB) (elem2 vB i j)"
    if "i < h" "j < r" for i j
    using elem2_to_dtype [OF w(3) that] .
  show "block2 B h r 0 0 = qB"
    by (rule block2_eqI [OF w(1) dt]) (simp add: e)
  show "block2 B h r 1 1 = to_dtype fmt (dtype qB) kB"
    by (rule block2_eqI [OF well_shaped_to_dtype [OF w(2)]]) (simp_all add: e tk dt, simp add: to_dtype_def)
  show "block2 B h r 2 2 = to_dtype fmt (dtype qB) vB"
    by (rule block2_eqI [OF well_shaped_to_dtype [OF w(3)]]) (simp_all add: e tv dt, simp add: to_dtype_def)
  show "block2 B h r 0 1 = \<lparr>dtype = dtype qB, shape = [h, r], vals = replicate (h * r) 0\<rparr>"
    unfolding dt [symmetric] by (rule block2_zero) (simp add: e)
  show "block2 B h r 0 2 = \<lparr>dtype = dtype qB, shape = [h, r], vals = replicate (h * r) 0\<rparr>"
    unfolding dt [symmetric] by (rule block2_zero) (simp add: e)
  show "block2 B h r 1 0 = \<lparr>dtype = dtype qB, shape = [h, r], vals = replicate (h * r) 0\<rparr>"
    unfolding dt [symmetric] by (rule block2_zero) (simp add: e)
  show "block2 B h r 1 2 = \<lparr>dtype = dtype qB, shape = [h, r], vals = replicate (h * r) 0\<rparr>"
    unfolding dt [symmetric] by (rule block2_zero) (simp add: e)
  show "block2 B h r 2 0 = \<lparr>dtype = dtype qB, shape = [h, r], vals = replicate (h * r) 0\<rparr>"
    unfolding dt [symmetric] by (rule block2_zero) (simp add: e)
  show "block2 B h r 2 1 = \<lparr>dtype = dtype qB, shape = [h, r], vals = replicate (h * r) 0\<rparr>"
    unfolding dt [symmetric] by (rule block2_zero) (simp add: e)
qed

subsection \<open>One step of the second loop\<close>

lemma fused_names_distinct: "distinct (fused_names b)"
proof -
  have "b @ ''.qkv.lora_B.weight'' \<noteq> b @ ''.qkv.alpha''"
    "b @ ''.qkv.lora_A.weight'' \<noteq> b @ ''.qkv.alpha''"
    "b @ ''.qkv.lora_B.weight'' \<noteq> b @ ''.qkv.lora_A.weight''"
    by simp_all
  then show ?thesis by (simp add: fused_names_def)
qed

lemma weight_neq_alpha:
  "b @ ''.qkv.lora_B.weight'' \<noteq> b' @ ''.qkv.alpha''"
  "b @ ''.qkv.lora_A.weight'' \<noteq> b' @ ''.qkv.alpha''"
proof -
  have "last (b @ ''.qkv.lora_B.weight'') \<noteq> last (b' @ ''.qkv.alpha'')" by simp
  then show "b @ ''.qkv.lora_B.weight'' \<noteq> b' @ ''.qkv.alpha''" by metis
  have "last (b @ ''.qkv.lora_A.weight'') \<noteq> last (b' @ ''.qkv.alpha'')" by simp
  then show "b @ ''.qkv.lora_A.weight'' \<noteq> b' @ ''.qkv.alpha''" by metis
qed

lemma fused_names_disjoint:
  assumes "b \<noteq> b'"
  shows "set (fused_names b) \<inter> set (fused_names b') = {}"
  using assms weight_neq_alpha [of b b'] weight_neq_alpha [of b' b]
  by (auto simp add: fused_names_def)

lemma build_qkv_axes:
  assumes "build_qkv fmt q = Inr x"
  shows "list_all (\<lambda>a. q a \<noteq> None) [''q'', ''k'', ''v'']"
proof -
  obtain qB kB vB where "lookup_slot q ''q'' ''lora_B'' = Inr qB"
    "lookup_slot q ''k'' ''lora_B'' = Inr kB" "lookup_slot q ''v'' ''lora_B'' = Inr vB"
    using build_qkv_lookups [OF assms] by blast
  then show ?thesis
    by (auto simp add: lookup_slot_def split: option.splits)
qed

lemma merge_step_alt:
  "merge_step fmt d (b, q) (out, n) =
     (case build_qkv fmt q of
        Inl e \<Rightarrow> (out, n)
      | Inr (B, A) \<Rightarrow>
          (case alpha_lookup d b of
             Inr (Some a) \<Rightarrow>
               (dict_set (b @ ''.qkv.alpha'') (mul_scalar fmt a 3)
                  (dict_set (b @ ''.qkv.lora_A.weight'') A
                     (dict_set (b @ ''.qkv.lora_B.weight'') B out)), n + 1)
           | _ \<Rightarrow>
               (dict_set (b @ ''.qkv.lora_A.weight'') A
                  (dict_set (b @ ''.qkv.lora_B.weight'') B out), n + 1)))"
proof (cases "build_qkv fmt q")
  case (Inl e)
  then show ?thesis by (simp add: merge_step_def)
next
  case (Inr x)
  obtain B A where x: "x = (B, A)" by (cases x)
  have ax: "list_all (\<lambda>a. q a \<noteq> None) [''q'', ''k'', ''v'']"
    using build_qkv_axes [OF Inr] .
  show ?thesis
  proof (cases "alpha_lookup d b")
    case (Inl e)
    then show ?thesis using Inr x ax by (simp add: merge_step_def Let_def)
  next
    case al: (Inr y)
    then show ?thesis using Inr x ax by (cases y) (simp_all add: merge_step_def Let_def)
  qed
qed

lemma merge_step_failed:
  "build_qkv fmt q = Inl e \<Longrightarrow> merge_step fmt d (b, q) st = st"
  by (cases st) (simp add: merge_step_alt)

lemma merge_step_count:
  "snd (merge_step fmt d (b, q) (out, n)) = (if \<exists>x. build_qkv fmt q = Inr x then n + 1 else n)"
  by (auto simp add: merge_step_alt split: sum.splits option.splits)

lemma merge_step_other:
  "x \<notin> set (fused_names b) \<Longrightarrow> map_of (fst (merge_step fmt d (b, q) (out, n))) x = map_of out x"
  by (auto simp add: merge_step_alt fused_names_def map_of_dict_set split: sum.splits option.splits)

lemma merge_step_fused:
  assumes "build_qkv fmt q = Inr (B, A)"
  shows "map_of (fst (merge_step fmt d (b, q) (out, n))) (b @ ''.qkv.lora_B.weight'') = Some B"
    and "map_of (fst (merge_step fmt d (b, q) (out, n))) (b @ ''.qkv.lora_A.weight'') = Some A"
  using assms weight_neq_alpha [of b b]
  by (auto simp add: merge_step_alt map_of_dict_set split: sum.splits option.splits)

lemma merge_step_alpha:
  assumes "build_qkv fmt q = Inr (B, A)"
  shows "map_of (fst (merge_step fmt d (b, q) (out, n))) (b @ ''.qkv.alpha'') =
     (case alpha_lookup d b of
        Inr (Some a) \<Rightarrow> Some (mul_scalar fmt a 3)
      | _ \<Rightarrow> map_of out (b @ ''.qkv.alpha''))"
  using assms weight_neq_alpha [of b b]
  by (auto simp add: merge_step_alt map_of_dict_set split: sum.splits option.splits)

lemma merge_step_distinct:
  "distinct (map fst out) \<Longrightarrow> distinct (map fst (fst (merge_step fmt d (b, q) (out, n))))"
  by (auto simp add: merge_step_alt distinct_dict_set split: sum.splits option.splits)

lemma merge_step_keys:
  "fst ` set out \<subseteq> fst ` set (fst (merge_step fmt d (b, q) (out, n)))"
  by (auto simp add: merge_step_alt keys_dict_set split: sum.splits option.splits)

subsection \<open>The second loop\<close>

lemma fold_merge_other:
  "\<forall>g\<in>set gs. x \<notin> set (fused_names (fst g)) \<Longrightarrow>
   map_of (fst (fold (merge_step fmt d) gs (out, n))) x = map_of out x"
proof (induction gs arbitrary: out n)
  case Nil
  then show ?case by simp
next
  case (Cons g gs)
  obtain b q where g: "g = (b, q)" by (cases g)
  obtain out' n' where st: "merge_step fmt d (b, q) (out, n) = (out', n')"
    by (cases "merge_step fmt d (b, q) (out, n)")
  have "x \<notin> set (fused_names b)" using Cons.prems g by simp
  then have "map_of out' x = map_of out x"
    using merge_step_other [of x b fmt d q out n] st by simp
  moreover have "map_of (fst (fold (merge_step fmt d) gs (out', n'))) x = map_of out' x"
    using Cons.prems by (intro Cons.IH) simp
  ultimately show ?case by (simp add: g st)
qed

lemma fold_merge_count:
  "snd (fold (merge_step fmt d) gs (out, n)) =
     n + length (filter (\<lambda>g. \<exists>x. build_qkv fmt (snd g) = Inr x) gs)"
proof (induction gs arbitrary: out n)
  case Nil
  then show ?case by simp
next
  case (Cons g gs)
  obtain b q where g: "g = (b, q)" by (cases g)
  obtain out' n' where st: "merge_step fmt d (b, q) (out, n) = (out', n')"
    by (cases "merge_step fmt d (b, q) (out, n)")
  have "n' = (if \<exists>x. build_qkv fmt q = Inr x then n + 1 else n)"
    using merge_step_count [of fmt d b q out n] st by simp
  then show ?case
    using Cons.IH [of out' n'] by (simp add: g st)
qed

lemma fold_merge_distinct:
  "distinct (map fst out) \<Longrightarrow> distinct (map fst (fst (fold (merge_step fmt d) gs (out, n))))"
proof (induction gs arbitrary: out n)
  case Nil
  then show ?case by simp
next
  case (Cons g gs)
  obtain b q where g: "g = (b, q)" by (cases g)
  obtain out' n' where st: "merge_step fmt d (b, q) (out, n) = (out', n')"
    by (cases "merge_step fmt d (b, q) (out, n)")
  have "distinct (map fst out')"
    using merge_step_distinct [of out fmt d b q n] Cons.prems st by simp
  then show ?case
    using Cons.IH [of out' n'] by (simp add: g st)
qed

lemma fold_merge_keys:
  "fst ` set out \<subseteq> fst ` set (fst (fold (merge_step fmt d) gs (out, n)))"
proof (induction gs arbitrary: out n)
  case Nil
  then show ?case by simp
next
  case (Cons g gs)
  obtain b q where g: "g = (b, q)" by (cases g)
  obtain out' n' where st: "merge_step fmt d (b, q) (out, n) = (out', n')"
    by (cases "merge_step fmt d (b, q) (out, n)")
  have "fst ` set out \<subseteq> fst ` set out'"
    using merge_step_keys [of out fmt d b q n] st by simp
  then show ?case
    using Cons.IH [of out' n'] by (auto simp add: g st)
qed

lemma fold_merge_at:
  assumes "distinct (map fst gs)" and "(b, q) \<in> set gs"
  shows "\<exists>out' n'. \<forall>x \<in> set (fused_names b).
     map_of (fst (fold (merge_step fmt d) gs (out, n))) x = map_of (fst (merge_step fmt d (b, q) (out', n'))) x
     \<and> map_of out' x = map_of out x"
proof -
  obtain xs ys where sp: "gs = xs @ (b, q) # ys"
    using assms(2) by (meson split_list)
  have nb: "\<forall>g\<in>set xs \<union> set ys. fst g \<noteq> b"
    using assms(1) sp by (auto simp add: image_iff) 
  obtain out' n' where f1: "fold (merge_step fmt d) xs (out, n) = (out', n')"
    by (cases "fold (merge_step fmt d) xs (out, n)")
  obtain out2 n2 where st: "merge_step fmt d (b, q) (out', n') = (out2, n2)"
    by (cases "merge_step fmt d (b, q) (out', n')")
  have "map_of (fst (fold (merge_step fmt d) gs (out, n))) x = map_of out2 x \<and> map_of out' x = map_of out x"
    if x: "x \<in> set (fused_names b)" for x
  proof -
    have o: "x \<notin> set (fused_names b')" if "b' \<noteq> b" for b'
      using fused_names_disjoint [OF that] x by auto
    have "map_of (fst (fold (merge_step fmt d) ys (out2, n2))) x = map_of out2 x"
      using nb o by (intro fold_merge_other) auto
    moreover have "map_of (fst (fold (merge_step fmt d) xs (out, n))) x = map_of out x"
      using nb o by (intro fold_merge_other) auto
    ultimately show ?thesis by (simp add: sp f1 st)
  qed
  then show ?thesis using st by (metis fst_conv)
qed

subsection \<open>The whole conversion\<close>

lemma parsed_slot: "get_slot (snd (parsed d)) b a l = last_slot d (b, a, l)"
  using fold_classify_slot [of d d "[]" "[]" b a l]
  by (simp add: parsed_def get_slot_def split: option.splits)

lemma parsed_groups_distinct: "distinct (map fst (snd (parsed d)))"
  using fold_classify_groups_distinct [of "[]" d d "[]"] by (simp add: parsed_def)

lemma parsed_group_keys: "fst ` set (snd (parsed d)) = set (group_keys d)"
  using fold_classify_group_keys [of d d "[]" "[]"] by (simp add: parsed_def)

lemma parsed_distinct: "distinct (map fst (fst (parsed d)))"
  using fold_classify_distinct [of "[]" d d "[]"] by (simp add: parsed_def)

lemma merged_distinct: "distinct (map fst (fst (merged fmt d)))"
  unfolding merged_def by (rule fold_merge_distinct) (rule parsed_distinct)

lemma lookup_slot_get:
  assumes "distinct (map fst gs)" and "(b, q) \<in> set gs"
  shows "lookup_slot q a l = Inr t \<longleftrightarrow> get_slot gs b a l = Some t"
proof -
  have "map_of gs b = Some q" using assms by simp
  then show ?thesis
    by (auto simp add: lookup_slot_def get_slot_def split: option.splits)
qed

lemma parsed_lookup:
  assumes "(b, q) \<in> set (snd (parsed d))"
  shows "lookup_slot q a l = Inr t \<longleftrightarrow> last_slot d (b, a, l) = Some t"
  using lookup_slot_get [OF parsed_groups_distinct assms] by (simp add: parsed_slot)

lemma parsed_group:
  assumes "last_slot d (b, a, l) = Some t"
  obtains q where "(b, q) \<in> set (snd (parsed d))"
proof -
  have "get_slot (snd (parsed d)) b a l = Some t" using assms by (simp add: parsed_slot)
  then obtain q where "map_of (snd (parsed d)) b = Some q"
    by (auto simp add: get_slot_def split: option.splits)
  then have "(b, q) \<in> set (snd (parsed d))" by (rule map_of_SomeD)
  then show ?thesis by (rule that)
qed

lemma group_fusable:
  assumes "(b, q) \<in> set (snd (parsed d))"
  shows "(\<exists>x. build_qkv fmt q = Inr x) = fusable d b"
proof (cases "complete d b")
  case True
  then obtain qB kB vB qA kA vA where s:
    "last_slot d (b, ''q'', ''lora_B'') = Some qB" "last_slot d (b, ''k'', ''lora_B'') = Some kB"
    "last_slot d (b, ''v'', ''lora_B'') = Some vB" "last_slot d (b, ''q'', ''lora_A'') = Some qA"
    "last_slot d (b, ''k'', ''lora_A'') = Some kA" "last_slot d (b, ''v'', ''lora_A'') = Some vA"
    by (auto simp add: complete_def slots_def)
  have l: "lookup_slot q ''q'' ''lora_B'' = Inr qB" "lookup_slot q ''k'' ''lora_B'' = Inr kB"
    "lookup_slot q ''v'' ''lora_B'' = Inr vB" "lookup_slot q ''q'' ''lora_A'' = Inr qA"
    "lookup_slot q ''k'' ''lora_A'' = Inr kA" "lookup_slot q ''v'' ''lora_A'' = Inr vA"
    using s by (simp_all add: parsed_lookup [OF assms])
  show ?thesis
    unfolding build_qkv_success [OF l] using True s by (simp add: fusable_def on_shapes_def)
next
  case False
  have "\<not> (\<exists>x. build_qkv fmt q = Inr x)"
  proof
    assume "\<exists>x. build_qkv fmt q = Inr x"
    then obtain x where "build_qkv fmt q = Inr x" ..
    then obtain qB kB vB qA kA vA where
      "lookup_slot q ''q'' ''lora_B'' = Inr qB" "lookup_slot q ''k'' ''lora_B'' = Inr kB"
      "lookup_slot q ''v'' ''lora_B'' = Inr vB" "lookup_slot q ''q'' ''lora_A'' = Inr qA"
      "lookup_slot q ''k'' ''lora_A'' = Inr kA" "lookup_slot q ''v'' ''lora_A'' = Inr vA"
      using build_qkv_lookups by blast
    then have "complete d b"
      by (simp add: parsed_lookup [OF assms] complete_def slots_def)
    then show False using False by simp
  qed
  then show ?thesis using False by (simp add: fusable_def)
qed

lemma merged_count: "snd (merged fmt d) = card {b \<in> set (group_keys d). fusable d b}"
proof -
  let ?gs = "snd (parsed d)"
  have "snd (merged fmt d) = length (filter (\<lambda>g. \<exists>x. build_qkv fmt (snd g) = Inr x) ?gs)"
    by (simp add: merged_def fold_merge_count)
  also have "filter (\<lambda>g. \<exists>x. build_qkv fmt (snd g) = Inr x) ?gs = filter (\<lambda>g. fusable d (fst g)) ?gs"
    by (rule filter_cong [OF refl]) (use group_fusable in force)
  also have "length (filter (\<lambda>g. fusable d (fst g)) ?gs)
      = length (map fst (filter (\<lambda>g. fusable d (fst g)) ?gs))"
    by simp
  also have "\<dots> = card (set (map fst (filter (\<lambda>g. fusable d (fst g)) ?gs)))"
    using distinct_map_filter [OF parsed_groups_distinct, of "\<lambda>g. fusable d (fst g)" d]
    by (simp only: distinct_card)
  also have "set (map fst (filter (\<lambda>g. fusable d (fst g)) ?gs)) = {b \<in> set (group_keys d). fusable d b}"
    using parsed_group_keys [of d] by auto
  finally show ?thesis .
qed

lemma merged_fused:
  assumes "(b, q) \<in> set (snd (parsed d))" and "build_qkv fmt q = Inr (B, A)"
  shows "map_of (fst (merged fmt d)) (b @ ''.qkv.lora_B.weight'') = Some B"
    and "map_of (fst (merged fmt d)) (b @ ''.qkv.lora_A.weight'') = Some A"
proof -
  obtain out' n' where at: "\<forall>x \<in> set (fused_names b).
     map_of (fst (merged fmt d)) x = map_of (fst (merge_step fmt d (b, q) (out', n'))) x
     \<and> map_of out' x = map_of (fst (parsed d)) x"
    using fold_merge_at [OF parsed_groups_distinct assms(1), of fmt d "fst (parsed d)" 0]
    unfolding merged_def by blast
  show "map_of (fst (merged fmt d)) (b @ ''.qkv.lora_B.weight'') = Some B"
    using at merge_step_fused(1) [OF assms(2), of d b out' n'] by (simp add: fused_names_def)
  show "map_of (fst (merged fmt d)) (b @ ''.qkv.lora_A.weight'') = Some A"
    using at merge_step_fused(2) [OF assms(2), of d b out' n'] by (simp add: fused_names_def)
qed

lemma merged_other:
  assumes "\<forall>b\<in>set (group_keys d). x \<notin> set (fused_names b)"
  shows "map_of (fst (merged fmt d)) x = map_of (fst (parsed d)) x"
  unfolding merged_def
proof (rule fold_merge_other)
  show "\<forall>g\<in>set (snd (parsed d)). x \<notin> set (fused_names (fst g))"
    using assms parsed_group_keys [of d] by auto
qed

lemma merged_untouched:
  assumes "x \<notin> set (all_targets d)"
  shows "map_of (fst (merged fmt d)) x = None"
proof -
  have "\<forall>b\<in>set (group_keys d). x \<notin> set (fused_names b)"
    using assms by (auto simp add: all_targets_def)
  then have "map_of (fst (merged fmt d)) x = map_of (fst (parsed d)) x"
    by (rule merged_other)
  also have "\<dots> = map_of [] x"
    unfolding parsed_def
  proof (rule fold_classify_other)
    show "\<forall>kv\<in>set d. x \<notin> set (targets d (fst kv))"
      using assms by (auto simp add: all_targets_def)
  qed
  finally show ?thesis by simp
qed


lemma merged_present:
  assumes "(k, v) \<in> set d" and "t \<in> set (targets d k)"
  shows "t \<in> fst ` set (fst (merged fmt d))"
proof -
  have "t \<in> fst ` set (fst (parsed d))"
    using assms fold_classify_keys [of d d "[]" "[]"] by (force simp add: parsed_def)
  then show ?thesis
    using fold_merge_keys [of "fst (parsed d)" fmt d "snd (parsed d)" 0] by (auto simp add: merged_def)
qed




section \<open>What a group writes\<close>

text \<open>
  A group that is not fusable (a slot is empty, or the code does not accept the shapes) leaves
  the three fused names as the first loop left them. A fusable group stores the fused alpha when
  the first alpha key holds a one-element tensor that is not zero, or when the first key is
  absent and the second is present; when both are absent it stores none.
\<close>

lemma fold_merge_unchanged:
  "\<forall>g\<in>set gs. x \<notin> set (fused_names (fst g)) \<or> (\<exists>e. build_qkv fmt (snd g) = Inl e) \<Longrightarrow>
   map_of (fst (fold (merge_step fmt d) gs (out, n))) x = map_of out x"
proof (induction gs arbitrary: out n)
  case Nil
  then show ?case by simp
next
  case (Cons g gs)
  obtain b q where g: "g = (b, q)" by (cases g)
  obtain out' n' where st: "merge_step fmt d (b, q) (out, n) = (out', n')"
    by (cases "merge_step fmt d (b, q) (out, n)")
  have "x \<notin> set (fused_names b) \<or> (\<exists>e. build_qkv fmt q = Inl e)"
    using Cons.prems g by simp
  then have "map_of out' x = map_of out x"
    using merge_step_other [of x b fmt d q out n] merge_step_failed [of fmt q _ d b "(out, n)"] st
    by auto
  moreover have "map_of (fst (fold (merge_step fmt d) gs (out', n'))) x = map_of out' x"
    using Cons.prems by (intro Cons.IH) simp
  ultimately show ?case by (simp add: g st)
qed

lemma unfusable_group_contributes_nothing:
  assumes "\<not> fusable d b" and "x \<in> set (fused_names b)"
  shows "map_of (fst (merged fmt d)) x = map_of (fst (parsed d)) x"
  unfolding merged_def
proof (rule fold_merge_unchanged, rule ballI)
  fix g assume g: "g \<in> set (snd (parsed d))"
  obtain b' q where bq: "g = (b', q)" by (cases g)
  show "x \<notin> set (fused_names (fst g)) \<or> (\<exists>e. build_qkv fmt (snd g) = Inl e)"
  proof (cases "b' = b")
    case True
    then have "\<not> (\<exists>y. build_qkv fmt q = Inr y)"
      using group_fusable [of b q d] g bq assms(1) by simp
    then show ?thesis by (cases "build_qkv fmt q") (simp_all add: bq)
  next
    case False
    then show ?thesis
      using fused_names_disjoint [of b' b] assms(2) by (auto simp add: bq)
  qed
qed

lemma fusable_group:
  assumes "fusable d b"
  obtains q B A where "(b, q) \<in> set (snd (parsed d))" and "build_qkv fmt q = Inr (B, A)"
proof -
  have "last_slot d (b, ''q'', ''lora_B'') \<noteq> None"
    using assms by (simp add: fusable_def complete_def slots_def)
  then obtain t where "last_slot d (b, ''q'', ''lora_B'') = Some t" by blast
  then obtain q where q: "(b, q) \<in> set (snd (parsed d))" by (rule parsed_group)
  then obtain y where "build_qkv fmt q = Inr y"
    using group_fusable [OF q] assms by blast
  then show ?thesis using q that by (cases y) blast
qed

lemma merged_alpha:
  assumes "fusable d b"
  shows "map_of (fst (merged fmt d)) (b @ ''.qkv.alpha'') =
     (case alpha_lookup d b of
        Inr (Some a) \<Rightarrow> Some (mul_scalar fmt a 3)
      | _ \<Rightarrow> map_of (fst (parsed d)) (b @ ''.qkv.alpha''))"
proof -
  obtain q B A where q: "(b, q) \<in> set (snd (parsed d))" and bq: "build_qkv fmt q = Inr (B, A)"
    using assms by (rule fusable_group)
  obtain out' n' where at: "\<forall>x \<in> set (fused_names b).
     map_of (fst (merged fmt d)) x = map_of (fst (merge_step fmt d (b, q) (out', n'))) x
     \<and> map_of out' x = map_of (fst (parsed d)) x"
    using fold_merge_at [OF parsed_groups_distinct q, of fmt d "fst (parsed d)" 0]
    unfolding merged_def by blast
  have "map_of (fst (merged fmt d)) (b @ ''.qkv.alpha'')
        = map_of (fst (merge_step fmt d (b, q) (out', n'))) (b @ ''.qkv.alpha'')"
    and "map_of out' (b @ ''.qkv.alpha'') = map_of (fst (parsed d)) (b @ ''.qkv.alpha'')"
    using at by (simp_all add: fused_names_def)
  then show ?thesis
    using merge_step_alpha [OF bq, of d b out' n']
    by (simp split: sum.splits option.splits)
qed

lemma fused_alpha_first:
  assumes "fusable d b" and "map_of d (b @ ''.to_q.alpha'') = Some a"
    and "vals a = [x]" and "x \<noteq> 0"
  shows "map_of (fst (merged fmt d)) (b @ ''.qkv.alpha'') = Some (mul_scalar fmt a 3)"
proof -
  have "alpha_lookup d b = Inr (Some a)"
    using assms(2-4) by (simp add: alpha_lookup_def tensor_bool_def bind_err_def)
  then show ?thesis using merged_alpha [OF assms(1)] by simp
qed

lemma fused_alpha_second:
  assumes "fusable d b" and "map_of d (b @ ''.to_q.alpha'') = None"
    and "map_of d (b @ ''.to_q.lora_A.alpha'') = Some a"
  shows "map_of (fst (merged fmt d)) (b @ ''.qkv.alpha'') = Some (mul_scalar fmt a 3)"
proof -
  have "alpha_lookup d b = Inr (Some a)"
    using assms(2,3) by (simp add: alpha_lookup_def)
  then show ?thesis using merged_alpha [OF assms(1)] by simp
qed

lemma fused_alpha_absent:
  assumes "fusable d b" and "map_of d (b @ ''.to_q.alpha'') = None"
    and "map_of d (b @ ''.to_q.lora_A.alpha'') = None"
  shows "map_of (fst (merged fmt d)) (b @ ''.qkv.alpha'') = map_of (fst (parsed d)) (b @ ''.qkv.alpha'')"
proof -
  have "alpha_lookup d b = Inr None"
    using assms(2,3) by (simp add: alpha_lookup_def)
  then show ?thesis using merged_alpha [OF assms(1)] by simp
qed

section \<open>The writes of the first loop\<close>

text \<open>
  When the first loop ends, a name is bound to the tensor of the last write of the loop under
  this name; the second loop changes the binding of the fused names of the fusable groups
  only. The shapes that the specification calls compatible are accepted by the code.
\<close>

lemma fold_writes:
  "map_of (fold (\<lambda>w. dict_set (fst w) (snd w)) ws out) x =
     (case map_of (rev ws) x of Some v \<Rightarrow> Some v | None \<Rightarrow> map_of out x)"
proof (induction ws arbitrary: out)
  case Nil
  then show ?case by simp
next
  case (Cons w ws)
  show ?case
    by (simp add: Cons.IH map_of_dict_set map_of_append map_add_def split: option.splits)
qed

lemma classify_step_writes:
  "fst (classify_step d (k, v) (out, g)) =
     fold (\<lambda>w. dict_set (fst w) (snd w)) (step_writes d (k, v)) out"
proof (rule classify_step_cases [of k])
  assume "is_out_key k" "merge_slot k = None"
  then show ?thesis
    by (simp add: classify_step_out step_writes_def split: option.splits)
next
  assume "\<not> is_out_key k" "is_alpha_skip k" "merge_slot k = None"
  then show ?thesis
    by (simp add: classify_step_skip step_writes_def)
next
  fix b a l assume "\<not> is_out_key k" "\<not> is_alpha_skip k" "merge_slot k = Some (b, a, l)"
  then show ?thesis
    by (simp add: classify_step_slot step_writes_def)
next
  assume "\<not> is_out_key k" "\<not> is_alpha_skip k" "merge_slot k = None"
  then show ?thesis
    by (simp add: classify_step_pass step_writes_def)
qed

lemma fold_classify_writes:
  "fst (fold (classify_step d) xs (out, g)) =
     fold (\<lambda>w. dict_set (fst w) (snd w)) (concat (map (step_writes d) xs)) out"
proof (induction xs arbitrary: out g)
  case Nil
  then show ?case by simp
next
  case (Cons kv xs)
  obtain k v where kv: "kv = (k, v)" by (cases kv)
  obtain out' g' where st: "classify_step d (k, v) (out, g) = (out', g')"
    by (cases "classify_step d (k, v) (out, g)")
  have "out' = fold (\<lambda>w. dict_set (fst w) (snd w)) (step_writes d (k, v)) out"
    using classify_step_writes [of d k v out g] st by simp
  then show ?case
    using Cons.IH [of out' g'] by (simp add: kv st)
qed

lemma parsed_writes: "map_of (fst (parsed d)) x = last_write (loop_writes d) x"
  unfolding parsed_def fold_classify_writes fold_writes loop_writes_def last_write_def
  by (simp split: option.splits)

lemma merged_unfused:
  assumes "x \<notin> set (fused_targets d)"
  shows "map_of (fst (merged fmt d)) x = map_of (fst (parsed d)) x"
  unfolding merged_def
proof (rule fold_merge_unchanged, rule ballI)
  fix g assume g: "g \<in> set (snd (parsed d))"
  obtain b q where bq: "g = (b, q)" by (cases g)
  have k: "b \<in> set (group_keys d)"
    using g bq parsed_group_keys [of d] by force
  show "x \<notin> set (fused_names (fst g)) \<or> (\<exists>e. build_qkv fmt (snd g) = Inl e)"
  proof (cases "fusable d b")
    case True
    then show ?thesis using assms k by (auto simp add: fused_targets_def bq)
  next
    case False
    then have "\<not> (\<exists>y. build_qkv fmt q = Inr y)"
      using group_fusable [of b q d fmt] g bq by simp
    then show ?thesis by (cases "build_qkv fmt q") (simp_all add: bq)
  qed
qed

lemma loop_writes_split:
  assumes "distinct (map fst d)" and "(k, v) \<in> set d" and "step_writes d (k, v) = w # ws"
  shows "\<exists>before. loop_writes d = before @ w # later_writes d k"
proof -
  obtain xs ys where sp: "d = xs @ (k, v) # ys"
    using assms(2) by (meson split_list)
  have nk: "\<forall>kv\<in>set xs. fst kv \<noteq> k"
    using assms(1) sp by (auto simp add: image_iff)
  have dw: "dropWhile (\<lambda>kv. fst kv \<noteq> k) d = (k, v) # ys"
    using nk sp by (simp add: dropWhile_append3)
  have "later_writes d k = ws @ concat (map (step_writes d) ys)"
    unfolding later_writes_def dw using assms(3) by simp
  moreover have m: "concat (map f d) = concat (map f xs) @ f (k, v) @ concat (map f ys)"
    for f :: "string \<times> ('a, 'b) tensor \<Rightarrow> (string \<times> ('a, 'b) tensor) list"
    using sp by simp
  have "loop_writes d
      = concat (map (step_writes d) xs) @ w # ws @ concat (map (step_writes d) ys)"
    by (simp add: loop_writes_def m assms(3))
  ultimately show ?thesis by simp
qed

lemma parsed_own_write:
  assumes "distinct (map fst d)" and "(k, v) \<in> set d" and "step_writes d (k, v) = (x, v) # ws"
  shows "map_of (fst (parsed d)) x = Some v \<longleftrightarrow> \<not> rewritten d k x v"
proof -
  obtain before where s: "loop_writes d = before @ (x, v) # later_writes d k"
    using loop_writes_split [OF assms] by blast
  have "map_of (fst (parsed d)) x =
     (case last_write (later_writes d k) x of Some v' \<Rightarrow> Some v' | None \<Rightarrow> Some v)"
    unfolding parsed_writes unfolding last_write_def s
    by (simp add: map_of_append map_add_def split: option.splits)
  then show ?thesis
    by (auto simp add: rewritten_def split: option.splits)
qed

lemma shape_compatible_accepted:
  assumes "shape_compatible sqB skB svB sqA skA svA"
  shows "shapes_accepted sqB skB svB sqA skA svA"
proof -
  obtain h r where b: "sqB = [h, r]" "skB = [h, r]" "svB = [h, r]"
    and a: "case sqA of [r', n] \<Rightarrow> r' = r \<and> skA = [r, n] \<and> svA = [r, n] | _ \<Rightarrow> False"
    using assms unfolding shape_compatible_def by (simp split: list.splits)
  obtain n where a': "sqA = [r, n]" "skA = [r, n]" "svA = [r, n]"
    using a by (simp split: list.splits)
  show ?thesis
    by (simp add: shapes_accepted_def b a' expandable_exact cat_accepted_def)
qed

lemma compatible_fusable: "compatible d b \<Longrightarrow> fusable d b"
  by (simp add: compatible_def fusable_def on_shapes_def shape_compatible_accepted)

section \<open>The claims\<close>

text \<open>
  Claim C1, as stated, says that the diagonal blocks of the fused factor B are the q, k and v
  factor-B tensors. The fused tensor is created in the format of the q factor
  (\<open>dtype=qB.dtype\<close>), and a slice assignment converts what it stores to the format of its
  target. Here the group is complete, its factors B have shape \<open>(2, 1)\<close> and its factors A
  shape \<open>(1, 2)\<close>; the q factor B is of format \<open>Float16\<close> and the k factor B, of format
  \<open>Float32\<close>, holds 2049, which \<open>Float16\<close> cannot hold: the k block of the fused tensor
  holds 2048.
\<close>

theorem fused_block_converted:
  "compatible (demo_factors (f16 [2, 1] [3, 4]) (f32 [2, 1] [2049, 8]) (f16 [1, 2] [5, 6]))
     ''m.attention''
   \<and> last_slot (demo_factors (f16 [2, 1] [3, 4]) (f32 [2, 1] [2049, 8]) (f16 [1, 2] [5, 6]))
       (''m.attention'', ''k'', ''lora_B'') = Some (f32 [2, 1] [2049, 8])
   \<and> convert_tensors demo_formats None
        (demo_factors (f16 [2, 1] [3, 4]) (f32 [2, 1] [2049, 8]) (f16 [1, 2] [5, 6])) () =
       (Inr ([(''m.attention.qkv.lora_B.weight'',
               f16 [6, 3] [3, 0, 0, 4, 0, 0, 0, 2048, 0, 0, 8, 0, 0, 0, 11, 0, 0, 12]),
              (''m.attention.qkv.lora_A.weight'', f32 [3, 2] [1, 2, 5, 6, 9, 10]),
              (''m.attention.qkv.alpha'', f32 [] [24])],
             1), ())
   \<and> vals (block2 (f16 [6, 3] [3, 0, 0, 4, 0, 0, 0, 2048, 0, 0, 8, 0, 0, 0, 11, 0, 0, 12]) 2 1 1 1)
       = [2048, 8]"
  by code_simp

text \<open>
  Claim C1, amended. Take a group key \<open>b\<close> all of whose six slots are filled when the first
  loop ends, the three factor-B tensors of shape \<open>(h, r)\<close> and the three factor-A tensors of
  shape \<open>(r, n)\<close>. Then the output dictionary, whose keys are distinct, binds
  \<open>b.qkv.lora_B.weight\<close> to a tensor of the format of the q factor B and of shape
  \<open>(3h, 3r)\<close>, whose diagonal blocks of size \<open>h\<close> by \<open>r\<close> are the q factor B and the k and v
  factors B converted to the format of the q factor, in this order, and whose six other
  blocks hold the element 0 everywhere; and it binds \<open>b.qkv.lora_A.weight\<close> to the tensor of
  shape \<open>(3r, n)\<close> whose rows are those of the q, k and v factors A, in this order, converted
  to the common format of the three. A conversion to the format a tensor already has changes
  nothing, so the blocks are the factors themselves when the factors have one format. The
  conversion ends with an error only when the progress callback raises.
\<close>

theorem fused_pair_block_diagonal:
  assumes "last_slot lora_dict (b, ''q'', ''lora_B'') = Some qB"
    and "last_slot lora_dict (b, ''k'', ''lora_B'') = Some kB"
    and "last_slot lora_dict (b, ''v'', ''lora_B'') = Some vB"
    and "last_slot lora_dict (b, ''q'', ''lora_A'') = Some qA"
    and "last_slot lora_dict (b, ''k'', ''lora_A'') = Some kA"
    and "last_slot lora_dict (b, ''v'', ''lora_A'') = Some vA"
    and "well_shaped qB [h, r]" and "well_shaped kB [h, r]" and "well_shaped vB [h, r]"
    and "shape qA = [r, n]" and "shape kA = [r, n]" and "shape vA = [r, n]"
  shows "(case fst (convert_tensors fmt progress_callback lora_dict ob) of
            Inl e \<Rightarrow> \<not> returns_normally progress_callback
          | Inr (output_dict, converted_count) \<Rightarrow>
              distinct (map fst output_dict)
              \<and> (\<exists>B. map_of output_dict (b @ ''.qkv.lora_B.weight'') = Some B
                    \<and> dtype B = dtype qB \<and> shape B = [3 * h, 3 * r]
                    \<and> block2 B h r 0 0 = qB
                    \<and> block2 B h r 1 1 = to_dtype fmt (dtype qB) kB
                    \<and> block2 B h r 2 2 = to_dtype fmt (dtype qB) vB
                    \<and> (\<forall>i j. i < 3 \<and> j < 3 \<and> i \<noteq> j \<longrightarrow>
                          block2 B h r i j
                            = \<lparr>dtype = dtype qB, shape = [h, r], vals = replicate (h * r) 0\<rparr>))
              \<and> map_of output_dict (b @ ''.qkv.lora_A.weight'') = Some (stacked fmt qA kA vA r n)
              \<and> (dtype kB = dtype qB \<longrightarrow> to_dtype fmt (dtype qB) kB = kB)
              \<and> (dtype vB = dtype qB \<longrightarrow> to_dtype fmt (dtype qB) vB = vB))"
proof (rule convert_tensors_intro)
  obtain q where q: "(b, q) \<in> set (snd (parsed lora_dict))"
    using parsed_group [OF assms(1)] .
  have l: "lookup_slot q ''q'' ''lora_B'' = Inr qB" "lookup_slot q ''k'' ''lora_B'' = Inr kB"
    "lookup_slot q ''v'' ''lora_B'' = Inr vB" "lookup_slot q ''q'' ''lora_A'' = Inr qA"
    "lookup_slot q ''k'' ''lora_A'' = Inr kA" "lookup_slot q ''v'' ''lora_A'' = Inr vA"
    using assms(1-6) by (simp_all add: parsed_lookup [OF q])
  have sB: "shape qB = [h, r]" "shape kB = [h, r]" "shape vB = [h, r]"
    using assms(7-9) by (simp_all add: well_shaped_def)
  obtain B where bq: "build_qkv fmt q = Inr (B, stacked fmt qA kA vA r n)"
    and sh: "shape B = [3 * h, 3 * r]" and dt: "dtype B = dtype qB"
    and el: "\<forall>i j. i < 3 * h \<longrightarrow> j < 3 * r \<longrightarrow>
          elem2 B i j =
            (if i < h \<and> j < r then elem2 qB i j
             else if h \<le> i \<and> i < 2 * h \<and> r \<le> j \<and> j < 2 * r
             then convert_elem fmt (dtype kB) (dtype qB) (elem2 kB (i - h) (j - r))
             else if 2 * h \<le> i \<and> 2 * r \<le> j
             then convert_elem fmt (dtype vB) (dtype qB) (elem2 vB (i - 2 * h) (j - 2 * r))
             else 0)"
    using build_qkv_exact [OF l sB assms(10-12), of fmt] by blast
  note bl = fused_blocks [OF assms(7-9) sh dt el]
  note m = merged_fused [OF q bq]
  have z: "block2 B h r i j = \<lparr>dtype = dtype qB, shape = [h, r], vals = replicate (h * r) 0\<rparr>"
    if "i < 3" "j < 3" "i \<noteq> j" for i j
  proof -
    have "i = 0 \<or> i = 1 \<or> i = 2" "j = 0 \<or> j = 1 \<or> j = 2" using that by auto
    then show ?thesis using that(3) bl(4-9) by auto
  qed
  have k: "to_dtype fmt (dtype qB) kB = kB" if "dtype kB = dtype qB"
    using to_dtype_same [of fmt kB] that by simp
  have v: "to_dtype fmt (dtype qB) vB = vB" if "dtype vB = dtype qB"
    using to_dtype_same [of fmt vB] that by simp
  have "\<exists>B. map_of (fst (merged fmt lora_dict)) (b @ ''.qkv.lora_B.weight'') = Some B
          \<and> dtype B = dtype qB \<and> shape B = [3 * h, 3 * r]
          \<and> block2 B h r 0 0 = qB
          \<and> block2 B h r 1 1 = to_dtype fmt (dtype qB) kB
          \<and> block2 B h r 2 2 = to_dtype fmt (dtype qB) vB
          \<and> (\<forall>i j. i < 3 \<and> j < 3 \<and> i \<noteq> j \<longrightarrow>
                block2 B h r i j
                  = \<lparr>dtype = dtype qB, shape = [h, r], vals = replicate (h * r) 0\<rparr>)"
    using m(1) dt sh bl(1-3) z by blast
  then show "distinct (map fst (fst (merged fmt lora_dict)))
      \<and> (\<exists>B. map_of (fst (merged fmt lora_dict)) (b @ ''.qkv.lora_B.weight'') = Some B
            \<and> dtype B = dtype qB \<and> shape B = [3 * h, 3 * r]
            \<and> block2 B h r 0 0 = qB
            \<and> block2 B h r 1 1 = to_dtype fmt (dtype qB) kB
            \<and> block2 B h r 2 2 = to_dtype fmt (dtype qB) vB
            \<and> (\<forall>i j. i < 3 \<and> j < 3 \<and> i \<noteq> j \<longrightarrow>
                  block2 B h r i j
                    = \<lparr>dtype = dtype qB, shape = [h, r], vals = replicate (h * r) 0\<rparr>))
      \<and> map_of (fst (merged fmt lora_dict)) (b @ ''.qkv.lora_A.weight'')
          = Some (stacked fmt qA kA vA r n)
      \<and> (dtype kB = dtype qB \<longrightarrow> to_dtype fmt (dtype qB) kB = kB)
      \<and> (dtype vB = dtype qB \<longrightarrow> to_dtype fmt (dtype qB) vB = vB)"
    using m(2) merged_distinct [of fmt lora_dict] k v by blast
qed

theorem fused_pair_block_diagonal_witness:
  "last_slot (demo_factors (f16 [2, 1] [3, 4]) (f32 [2, 1] [2049, 8]) (f16 [1, 2] [5, 6]))
     (''m.attention'', ''q'', ''lora_B'') = Some (f16 [2, 1] [3, 4])
   \<and> last_slot (demo_factors (f16 [2, 1] [3, 4]) (f32 [2, 1] [2049, 8]) (f16 [1, 2] [5, 6]))
       (''m.attention'', ''k'', ''lora_B'') = Some (f32 [2, 1] [2049, 8])
   \<and> last_slot (demo_factors (f16 [2, 1] [3, 4]) (f32 [2, 1] [2049, 8]) (f16 [1, 2] [5, 6]))
       (''m.attention'', ''v'', ''lora_B'') = Some (f32 [2, 1] [11, 12])
   \<and> last_slot (demo_factors (f16 [2, 1] [3, 4]) (f32 [2, 1] [2049, 8]) (f16 [1, 2] [5, 6]))
       (''m.attention'', ''q'', ''lora_A'') = Some (f32 [1, 2] [1, 2])
   \<and> last_slot (demo_factors (f16 [2, 1] [3, 4]) (f32 [2, 1] [2049, 8]) (f16 [1, 2] [5, 6]))
       (''m.attention'', ''k'', ''lora_A'') = Some (f16 [1, 2] [5, 6])
   \<and> last_slot (demo_factors (f16 [2, 1] [3, 4]) (f32 [2, 1] [2049, 8]) (f16 [1, 2] [5, 6]))
       (''m.attention'', ''v'', ''lora_A'') = Some (f32 [1, 2] [9, 10])
   \<and> well_shaped (f16 [2, 1] [3, 4]) [2, 1] \<and> well_shaped (f32 [2, 1] [2049, 8]) [2, 1]
   \<and> well_shaped (f32 [2, 1] [11, 12]) [2, 1]
   \<and> (\<exists>output_dict converted_count B.
         fst (convert_tensors demo_formats None
               (demo_factors (f16 [2, 1] [3, 4]) (f32 [2, 1] [2049, 8]) (f16 [1, 2] [5, 6])) ())
           = Inr (output_dict, converted_count)
         \<and> map_of output_dict ''m.attention.qkv.lora_B.weight'' = Some B
         \<and> dtype B = Float16 \<and> shape B = [6, 3]
         \<and> block2 B 2 1 0 0 = f16 [2, 1] [3, 4]
         \<and> block2 B 2 1 1 1 = f16 [2, 1] [2048, 8]
         \<and> block2 B 2 1 2 2 = f16 [2, 1] [11, 12]
         \<and> block2 B 2 1 0 1 = f16 [2, 1] [0, 0] \<and> block2 B 2 1 0 2 = f16 [2, 1] [0, 0]
         \<and> block2 B 2 1 1 0 = f16 [2, 1] [0, 0] \<and> block2 B 2 1 1 2 = f16 [2, 1] [0, 0]
         \<and> block2 B 2 1 2 0 = f16 [2, 1] [0, 0] \<and> block2 B 2 1 2 1 = f16 [2, 1] [0, 0]
         \<and> map_of output_dict ''m.attention.qkv.lora_A.weight''
             = Some (f32 [3, 2] [1, 2, 5, 6, 9, 10]))"
proof -
  let ?D = "demo_factors (f16 [2, 1] [3, 4]) (f32 [2, 1] [2049, 8]) (f16 [1, 2] [5, 6])"
  have s: "last_slot ?D (''m.attention'', ''q'', ''lora_B'') = Some (f16 [2, 1] [3, 4])"
    "last_slot ?D (''m.attention'', ''k'', ''lora_B'') = Some (f32 [2, 1] [2049, 8])"
    "last_slot ?D (''m.attention'', ''v'', ''lora_B'') = Some (f32 [2, 1] [11, 12])"
    "last_slot ?D (''m.attention'', ''q'', ''lora_A'') = Some (f32 [1, 2] [1, 2])"
    "last_slot ?D (''m.attention'', ''k'', ''lora_A'') = Some (f16 [1, 2] [5, 6])"
    "last_slot ?D (''m.attention'', ''v'', ''lora_A'') = Some (f32 [1, 2] [9, 10])"
    by code_simp+
  have w: "well_shaped (f16 [2, 1] [3, 4]) [2, 1]" "well_shaped (f32 [2, 1] [2049, 8]) [2, 1]"
    "well_shaped (f32 [2, 1] [11, 12]) [2, 1]"
    by (simp_all add: well_shaped_def f16_def f32_def)
  have a: "shape (f32 [1, 2] [1, 2]) = [1, 2]" "shape (f16 [1, 2] [5, 6]) = [1, 2]"
    "shape (f32 [1, 2] [9, 10]) = [1, 2]"
    by (simp_all add: f16_def f32_def)
  have c: "to_dtype demo_formats Float16 (f32 [2, 1] [2049, 8]) = f16 [2, 1] [2048, 8]"
    "to_dtype demo_formats Float16 (f32 [2, 1] [11, 12]) = f16 [2, 1] [11, 12]"
    "stacked demo_formats (f32 [1, 2] [1, 2]) (f16 [1, 2] [5, 6]) (f32 [1, 2] [9, 10]) 1 2
       = f32 [3, 2] [1, 2, 5, 6, 9, 10]"
    "\<lparr>dtype = Float16, shape = [2, 1], vals = replicate (2 * 1) (0 :: int)\<rparr> = f16 [2, 1] [0, 0]"
    "dtype (f16 [2, 1] [3, 4]) = Float16"
    by code_simp+
  note t = fused_pair_block_diagonal [OF s w a, where fmt = demo_formats
      and progress_callback = None and ob = "()"]
  obtain output_dict converted_count where
    r: "fst (convert_tensors demo_formats None ?D ()) = Inr (output_dict, converted_count)"
    using t by (cases "fst (convert_tensors demo_formats None ?D ())")
      (auto simp add: returns_normally_def)
  obtain B where b: "map_of output_dict ''m.attention.qkv.lora_B.weight'' = Some B"
    "dtype B = Float16" "shape B = [6, 3]"
    "block2 B 2 1 0 0 = f16 [2, 1] [3, 4]"
    "block2 B 2 1 1 1 = f16 [2, 1] [2048, 8]"
    "block2 B 2 1 2 2 = f16 [2, 1] [11, 12]"
    and z: "\<forall>i j. i < 3 \<and> j < 3 \<and> i \<noteq> j \<longrightarrow> block2 B 2 1 i j = f16 [2, 1] [0, 0]"
    and sa: "map_of output_dict ''m.attention.qkv.lora_A.weight''
             = Some (f32 [3, 2] [1, 2, 5, 6, 9, 10])"
    using t unfolding r c by auto
  have "block2 B 2 1 0 1 = f16 [2, 1] [0, 0]" "block2 B 2 1 0 2 = f16 [2, 1] [0, 0]"
    "block2 B 2 1 1 0 = f16 [2, 1] [0, 0]" "block2 B 2 1 1 2 = f16 [2, 1] [0, 0]"
    "block2 B 2 1 2 0 = f16 [2, 1] [0, 0]" "block2 B 2 1 2 1 = f16 [2, 1] [0, 0]"
    using z by simp_all
  then show ?thesis using s w r b sa by blast
qed

text \<open>
  Claim C2, as stated, counts the groups whose six slots are filled and whose tensors are
  shape-compatible: factors B of one shape \<open>(h, r)\<close> and factors A of one shape \<open>(r, n)\<close>.
  The code makes no test of the shapes; it counts every group for which the slice
  assignments and the concatenation go through. A k factor B of shape \<open>(1)\<close> is broadcast
  into its block, and a k factor A of shape \<open>(2, 2)\<close> is concatenated with factors of shape
  \<open>(1, 2)\<close>: in both inputs the only group is complete and not compatible, and the count
  is 1.
\<close>

theorem accepted_shapes_counted:
  "complete (demo_factors (f32 [2, 1] [3, 4]) (f32 [1] [7]) (f32 [1, 2] [5, 6])) ''m.attention''
   \<and> card {b \<in> set (group_keys (demo_factors (f32 [2, 1] [3, 4]) (f32 [1] [7]) (f32 [1, 2] [5, 6]))).
              compatible (demo_factors (f32 [2, 1] [3, 4]) (f32 [1] [7]) (f32 [1, 2] [5, 6])) b} = 0
   \<and> convert_tensors demo_formats None
        (demo_factors (f32 [2, 1] [3, 4]) (f32 [1] [7]) (f32 [1, 2] [5, 6])) () =
       (Inr ([(''m.attention.qkv.lora_B.weight'',
               f32 [6, 3] [3, 0, 0, 4, 0, 0, 0, 7, 0, 0, 7, 0, 0, 0, 11, 0, 0, 12]),
              (''m.attention.qkv.lora_A.weight'', f32 [3, 2] [1, 2, 5, 6, 9, 10]),
              (''m.attention.qkv.alpha'', f32 [] [24])],
             1), ())
   \<and> complete (demo_factors (f32 [2, 1] [3, 4]) (f32 [2, 1] [7, 8]) (f32 [2, 2] [5, 6, 7, 8]))
        ''m.attention''
   \<and> card {b \<in> set (group_keys (demo_factors (f32 [2, 1] [3, 4]) (f32 [2, 1] [7, 8]) (f32 [2, 2] [5, 6, 7, 8]))).
              compatible (demo_factors (f32 [2, 1] [3, 4]) (f32 [2, 1] [7, 8]) (f32 [2, 2] [5, 6, 7, 8])) b} = 0
   \<and> convert_tensors demo_formats None
        (demo_factors (f32 [2, 1] [3, 4]) (f32 [2, 1] [7, 8]) (f32 [2, 2] [5, 6, 7, 8])) () =
       (Inr ([(''m.attention.qkv.lora_B.weight'',
               f32 [6, 3] [3, 0, 0, 4, 0, 0, 0, 7, 0, 0, 8, 0, 0, 0, 11, 0, 0, 12]),
              (''m.attention.qkv.lora_A.weight'', f32 [4, 2] [1, 2, 5, 6, 7, 8, 9, 10]),
              (''m.attention.qkv.alpha'', f32 [] [24])],
             1), ())"
  by code_simp

text \<open>
  Claim C2, amended. The count that the conversion returns is the number of distinct group
  keys of the input all of whose six slots are filled and whose shapes the code accepts: the q
  factor B is 2-D, of shape \<open>(h, r)\<close>, the k and v factors B can be broadcast to \<open>(h, r)\<close>, and
  the factors A can be concatenated along their first dimension. Every group that is complete
  and shape-compatible is counted, so the count is the number of these groups when the code
  accepts no other; the other keys of the input have no part in it. The conversion ends with
  an error only when the progress callback raises.
\<close>

theorem converted_count_is_fusable_groups:
  "(case fst (convert_tensors fmt progress_callback lora_dict ob) of
      Inl e \<Rightarrow> \<not> returns_normally progress_callback
    | Inr (output_dict, converted_count) \<Rightarrow>
        converted_count = card {b \<in> set (group_keys lora_dict). fusable lora_dict b}
        \<and> card {b \<in> set (group_keys lora_dict). compatible lora_dict b} \<le> converted_count
        \<and> ({b \<in> set (group_keys lora_dict). fusable lora_dict b}
             = {b \<in> set (group_keys lora_dict). compatible lora_dict b}
           \<or> card {b \<in> set (group_keys lora_dict). compatible lora_dict b} < converted_count))"
proof (rule convert_tensors_intro)
  let ?F = "{b \<in> set (group_keys lora_dict). fusable lora_dict b}"
  let ?C = "{b \<in> set (group_keys lora_dict). compatible lora_dict b}"
  have f: "finite ?F" by simp
  have s: "?C \<subseteq> ?F" using compatible_fusable by blast
  have c: "snd (merged fmt lora_dict) = card ?F" by (rule merged_count)
  have "card ?C \<le> card ?F" using s f by (rule card_mono [rotated])
  moreover have "?F = ?C \<or> card ?C < card ?F"
  proof (cases "?F = ?C")
    case True
    then show ?thesis by simp
  next
    case False
    then have "?C \<subset> ?F" using s by blast
    then show ?thesis using f by (simp add: psubset_card_mono)
  qed
  ultimately show "snd (merged fmt lora_dict) = card ?F \<and> card ?C \<le> snd (merged fmt lora_dict)
    \<and> (?F = ?C \<or> card ?C < snd (merged fmt lora_dict))"
    unfolding c by blast
qed

theorem converted_count_is_fusable_groups_witness:
  "convert_tensors demo_formats None (demo_dict @ mixed_dict) () =
     (Inr ([(''m.attention.out.lora_A.weight'', single 1), (''m.attention.out.alpha'', single 2),
            (''m.ff.w'', single 3), (''m.attention.to_q.weight'', single 4),
            (''m.attention.qkv.lora_B.weight'',
             f32 [6, 3] [3, 0, 0, 4, 0, 0, 0, 7, 0, 0, 8, 0, 0, 0, 11, 0, 0, 12]),
            (''m.attention.qkv.lora_A.weight'', f32 [3, 2] [1, 2, 5, 6, 9, 10]),
            (''m.attention.qkv.alpha'', f32 [] [24])],
           1), ())
   \<and> group_keys (demo_dict @ mixed_dict)
       = [''m.attention'', ''m.attention'', ''m.attention'', ''m.attention'', ''m.attention'',
          ''m.attention'']
   \<and> compatible (demo_dict @ mixed_dict) ''m.attention''
   \<and> card {b \<in> set (group_keys (demo_dict @ mixed_dict)). fusable (demo_dict @ mixed_dict) b} = 1
   \<and> card {b \<in> set (group_keys (demo_dict @ mixed_dict)). compatible (demo_dict @ mixed_dict) b} \<le> 1"
proof -
  have e: "convert_tensors demo_formats None (demo_dict @ mixed_dict) () =
     (Inr ([(''m.attention.out.lora_A.weight'', single 1), (''m.attention.out.alpha'', single 2),
            (''m.ff.w'', single 3), (''m.attention.to_q.weight'', single 4),
            (''m.attention.qkv.lora_B.weight'',
             f32 [6, 3] [3, 0, 0, 4, 0, 0, 0, 7, 0, 0, 8, 0, 0, 0, 11, 0, 0, 12]),
            (''m.attention.qkv.lora_A.weight'', f32 [3, 2] [1, 2, 5, 6, 9, 10]),
            (''m.attention.qkv.alpha'', f32 [] [24])],
           1), ())"
    by code_simp
  have g: "group_keys (demo_dict @ mixed_dict)
       = [''m.attention'', ''m.attention'', ''m.attention'', ''m.attention'', ''m.attention'',
          ''m.attention'']"
    "compatible (demo_dict @ mixed_dict) ''m.attention''"
    by code_simp+
  note t = converted_count_is_fusable_groups [where fmt = demo_formats
      and progress_callback = None and lora_dict = "demo_dict @ mixed_dict" and ob = "()"]
  have "card {b \<in> set (group_keys (demo_dict @ mixed_dict)). fusable (demo_dict @ mixed_dict) b} = 1
   \<and> card {b \<in> set (group_keys (demo_dict @ mixed_dict)). compatible (demo_dict @ mixed_dict) b} \<le> 1"
    using t unfolding e by simp
  then show ?thesis using e g by blast
qed

text \<open>
  Claim C3 says that an alpha found under \<open>b.to_q.alpha\<close> with value \<open>x\<close> gives
  \<open>b.qkv.alpha = 3x\<close>, for \<open>x = 0\<close> too, the first key found winning. The code joins the
  two lookups with \<open>or\<close>, which takes the truth value of the first tensor: an alpha of 0
  counts as absent. With the alpha 0 under the first key and no second key the group is fused
  and no \<open>m.attention.qkv.alpha\<close> is stored; with 0 under the first key and 5 under the second,
  the fused alpha is 15, that of the second key.
\<close>

theorem zero_alpha_not_found:
  "map_of (demo_alpha [f32 [] [0]]) ''m.attention.to_q.alpha'' = Some (f32 [] [0])
   \<and> convert_tensors demo_formats None (demo_alpha [f32 [] [0]]) () =
       (Inr ([(''m.attention.qkv.lora_B.weight'',
               f32 [6, 3] [3, 0, 0, 4, 0, 0, 0, 7, 0, 0, 8, 0, 0, 0, 11, 0, 0, 12]),
              (''m.attention.qkv.lora_A.weight'', f32 [3, 2] [1, 2, 5, 6, 9, 10])],
             1), ())
   \<and> convert_tensors demo_formats None (demo_alpha [f32 [] [0], f32 [] [5]]) () =
       (Inr ([(''m.attention.qkv.lora_B.weight'',
               f32 [6, 3] [3, 0, 0, 4, 0, 0, 0, 7, 0, 0, 8, 0, 0, 0, 11, 0, 0, 12]),
              (''m.attention.qkv.lora_A.weight'', f32 [3, 2] [1, 2, 5, 6, 9, 10]),
              (''m.attention.qkv.alpha'', f32 [] [15])],
             1), ())"
  by code_simp

text \<open>
  Claim C4 says that a group for which a step of the fusion fails contributes nothing and is
  not counted. The lookup of the alpha is inside the \<open>try\<close> body, after the fused pair
  is stored and counted: with an alpha of two elements under \<open>m.attention.to_q.alpha\<close> the
  truth value of the tensor is an error, the iteration ends there, and the output keeps the
  fused pair of the group and the count is 1.
\<close>

theorem alpha_failure_keeps_fused_pair:
  "alpha_lookup (demo_alpha [f32 [2] [8, 8]]) ''m.attention'' = Inl (RuntimeError ''bool'')
   \<and> convert_tensors demo_formats None (demo_alpha [f32 [2] [8, 8]]) () =
       (Inr ([(''m.attention.qkv.lora_B.weight'',
               f32 [6, 3] [3, 0, 0, 4, 0, 0, 0, 7, 0, 0, 8, 0, 0, 0, 11, 0, 0, 12]),
              (''m.attention.qkv.lora_A.weight'', f32 [3, 2] [1, 2, 5, 6, 9, 10])],
             1), ())"
  by code_simp

text \<open>
  Claim C5, as stated, is about every key that contains \<open>to_out.0\<close>. The code renames a
  key only when it contains \<open>.attention.to_out.0.\<close>, and replaces \<open>.to_out.0.\<close> by \<open>.out.\<close>:
  the key \<open>x.to_out.0.w\<close> is passed through under its own name, and \<open>x.out.w\<close> is not a key
  of the output.
\<close>

theorem bare_to_out_not_renamed:
  "str_in ''to_out.0'' ''x.to_out.0.w''
   \<and> str_replace ''to_out.0'' ''out'' ''x.to_out.0.w'' = ''x.out.w''
   \<and> convert_tensors demo_formats None [(''x.to_out.0.w'', single 1)] ()
       = (Inr ([(''x.to_out.0.w'', single 1)], 0), ())"
  by code_simp

text \<open>
  Claim C5, amended. For every key of the input that contains \<open>.attention.to_out.0.\<close>, the key
  with each \<open>.to_out.0.\<close> replaced by \<open>.out.\<close> is a key of the output. When the new name is
  not a fused name of a fusable group, it is bound to the tensor of the input key exactly when
  no later write of the first loop leaves another tensor under it: a write of the same tensor,
  as the one made for the alpha of a \<open>lora_A\<close> key of the same base, keeps the binding. The
  original key is not a key of the output unless some write lands on it. The conversion ends
  with an error only when the progress callback raises.
\<close>

theorem out_projection_renamed:
  assumes "distinct (map fst lora_dict)" and "(key, value) \<in> set lora_dict"
    and "str_in ''.attention.to_out.0.'' key"
  shows "(case fst (convert_tensors fmt progress_callback lora_dict ob) of
            Inl e \<Rightarrow> \<not> returns_normally progress_callback
          | Inr (output_dict, converted_count) \<Rightarrow>
              str_replace ''.to_out.0.'' ''.out.'' key \<in> fst ` set output_dict
              \<and> (str_replace ''.to_out.0.'' ''.out.'' key \<notin> set (fused_targets lora_dict) \<longrightarrow>
                   (map_of output_dict (str_replace ''.to_out.0.'' ''.out.'' key) = Some value)
                   = (\<not> rewritten lora_dict key (str_replace ''.to_out.0.'' ''.out.'' key) value))
              \<and> (key \<notin> set (all_targets lora_dict) \<longrightarrow> map_of output_dict key = None))"
proof (rule convert_tensors_intro)
  have o: "is_out_key key" using assms(3) by (simp add: is_out_key_def)
  have t: "targets lora_dict key = rename_out key # companion_alpha lora_dict key"
    using o by (simp add: targets_out)
  obtain ws where w: "step_writes lora_dict (key, value) = (rename_out key, value) # ws"
    using o by (simp add: step_writes_def)
  have "rename_out key \<in> fst ` set (fst (merged fmt lora_dict))"
    using merged_present [OF assms(2), of "rename_out key"] t by simp
  moreover have "(map_of (fst (merged fmt lora_dict)) (rename_out key) = Some value)
      = (\<not> rewritten lora_dict key (rename_out key) value)"
    if "rename_out key \<notin> set (fused_targets lora_dict)"
    unfolding merged_unfused [OF that] by (rule parsed_own_write [OF assms(1,2) w])
  moreover have "map_of (fst (merged fmt lora_dict)) key = None"
    if "key \<notin> set (all_targets lora_dict)"
    using merged_untouched [OF that] .
  ultimately show "str_replace ''.to_out.0.'' ''.out.'' key \<in> fst ` set (fst (merged fmt lora_dict))
    \<and> (str_replace ''.to_out.0.'' ''.out.'' key \<notin> set (fused_targets lora_dict) \<longrightarrow>
         (map_of (fst (merged fmt lora_dict)) (str_replace ''.to_out.0.'' ''.out.'' key) = Some value)
         = (\<not> rewritten lora_dict key (str_replace ''.to_out.0.'' ''.out.'' key) value))
    \<and> (key \<notin> set (all_targets lora_dict) \<longrightarrow> map_of (fst (merged fmt lora_dict)) key = None)"
    unfolding rename_out_def by blast
qed

theorem out_projection_renamed_witness:
  "distinct (map fst mixed_dict)
   \<and> (''m.attention.to_out.0.alpha'', single 2) \<in> set mixed_dict
   \<and> str_in ''.attention.to_out.0.'' ''m.attention.to_out.0.alpha''
   \<and> str_replace ''.to_out.0.'' ''.out.'' ''m.attention.to_out.0.alpha'' = ''m.attention.out.alpha''
   \<and> loop_writes mixed_dict =
       [(''m.attention.out.lora_A.weight'', single 1), (''m.attention.out.alpha'', single 2),
        (''m.attention.out.alpha'', single 2), (''m.ff.w'', single 3),
        (''m.attention.to_q.weight'', single 4)]
   \<and> ''m.attention.out.alpha'' \<notin> set (fused_targets mixed_dict)
   \<and> \<not> rewritten mixed_dict ''m.attention.to_out.0.alpha'' ''m.attention.out.alpha'' (single 2)
   \<and> ''m.attention.to_out.0.alpha'' \<notin> set (all_targets mixed_dict)
   \<and> (\<exists>output_dict converted_count.
         fst (convert_tensors demo_formats None mixed_dict ()) = Inr (output_dict, converted_count)
         \<and> map_of output_dict ''m.attention.out.alpha'' = Some (single 2)
         \<and> map_of output_dict ''m.attention.to_out.0.alpha'' = None)"
proof -
  have h: "distinct (map fst mixed_dict)"
    "(''m.attention.to_out.0.alpha'', single 2) \<in> set mixed_dict"
    "str_in ''.attention.to_out.0.'' ''m.attention.to_out.0.alpha''"
    by code_simp+
  have r: "str_replace ''.to_out.0.'' ''.out.'' ''m.attention.to_out.0.alpha'' = ''m.attention.out.alpha''"
    by code_simp
  have l: "loop_writes mixed_dict =
       [(''m.attention.out.lora_A.weight'', single 1), (''m.attention.out.alpha'', single 2),
        (''m.attention.out.alpha'', single 2), (''m.ff.w'', single 3),
        (''m.attention.to_q.weight'', single 4)]"
    by code_simp
  have n: "''m.attention.out.alpha'' \<notin> set (fused_targets mixed_dict)"
    "\<not> rewritten mixed_dict ''m.attention.to_out.0.alpha'' ''m.attention.out.alpha'' (single 2)"
    "''m.attention.to_out.0.alpha'' \<notin> set (all_targets mixed_dict)"
    by code_simp+
  have "\<exists>output_dict converted_count.
         fst (convert_tensors demo_formats None mixed_dict ()) = Inr (output_dict, converted_count)
         \<and> map_of output_dict ''m.attention.out.alpha'' = Some (single 2)
         \<and> map_of output_dict ''m.attention.to_out.0.alpha'' = None"
    using out_projection_renamed [OF h, of None demo_formats "()"] n unfolding r
    by (auto simp add: returns_normally_def split: sum.splits)
  then show ?thesis using h r l n by blast
qed






text \<open>
  Claim C8. When the input path ends in none of \<open>.safetensors\<close>, \<open>.pt\<close>, \<open>.pth\<close>,
  \<open>convert_lora\<close> raises, whatever the loading and saving primitives are: the only effect is
  the first progress report, and the file system is the one it started from. The error is
  \<open>ValueError\<close>, unless the callback raises at this first report, and then it is the error
  of the callback.
\<close>

theorem unsupported_extension_raises:
  assumes "\<not> str_endswith input_path ''.safetensors''"
    and "\<not> str_endswith input_path ''.pt''"
    and "\<not> str_endswith input_path ''.pth''"
  shows "convert_lora fmt env input_path output_path progress_callback (ob, w) =
           (case report progress_callback True 0 (''Loading: '' @ basename input_path) ob of
              (Some e, ob') \<Rightarrow> (Inl e, ob', w)
            | (None, ob') \<Rightarrow> (Inl (ValueError ''Unsupported file format''), ob', w))"
  using assms by (simp add: convert_lora_def split: prod.splits option.splits)

theorem unsupported_extension_raises_witness:
  "\<not> str_endswith ''lora.ckpt'' ''.safetensors''
   \<and> \<not> str_endswith ''lora.ckpt'' ''.pt''
   \<and> \<not> str_endswith ''lora.ckpt'' ''.pth''
   \<and> convert_lora demo_formats (demo_env demo_dict) ''lora.ckpt'' ''out.safetensors''
        (Some recording) ([], 0) =
       (Inl (ValueError ''Unsupported file format''), [(0, ''Loading: lora.ckpt'')], 0)"
proof -
  have a: "\<not> str_endswith ''lora.ckpt'' ''.safetensors''"
    "\<not> str_endswith ''lora.ckpt'' ''.pt''" "\<not> str_endswith ''lora.ckpt'' ''.pth''"
    by (simp_all add: str_endswith_def suffix_to_prefix)
  show ?thesis
    using a unsupported_extension_raises [OF a, of demo_formats "demo_env demo_dict"
        "''out.safetensors''" "Some recording" "[]" 0]
    by (simp add: report_def basename_def recording_def)
qed







end
